theory Spec2Isabelle
  imports Complex_Main
begin

section \<open>JavaScript numbers\<close>

text \<open>
  The components compute with JavaScript numbers. A number is modelled as a mathematical
  real, or one of the three non-finite values \<open>Infinity\<close>, \<open>-Infinity\<close> and \<open>NaN\<close>.
  Rounding and overflow of double precision, and the sign of zero, are not modelled:
  arithmetic on finite values is exact, and a zero divisor counts as \<open>+0\<close>.
  \<open>undefined\<close> (an array read out of range) only ever meets arithmetic in the source,
  where it coerces to \<open>NaN\<close>; it is represented by \<open>NaN\<close>.

  An objective or a derivative is a function from numbers to numbers: it may return a
  non-finite value, but it does not throw. Iteration counts are integers: \<open>maxIter\<close> a
  natural number, the \<open>n\<close> of the Fibonacci search an integer. Record fields keep the
  names of the source behind a prefix that tells the records apart.
\<close>

datatype jsnum = Num real | PInf | NInf | NaN

fun jsign :: "jsnum \<Rightarrow> real" where
  "jsign (Num x) = sgn x"
| "jsign PInf = 1"
| "jsign NInf = - 1"
| "jsign NaN = 0"

definition inf_of :: "real \<Rightarrow> jsnum" where
  "inf_of s = (if 0 < s then PInf else if s < 0 then NInf else NaN)"

instantiation jsnum :: "{plus, minus, uminus, times, inverse, abs, ord}"
begin

fun uminus_jsnum :: "jsnum \<Rightarrow> jsnum" where
  "uminus_jsnum (Num x) = Num (- x)"
| "uminus_jsnum PInf = NInf"
| "uminus_jsnum NInf = PInf"
| "uminus_jsnum NaN = NaN"

fun plus_jsnum :: "jsnum \<Rightarrow> jsnum \<Rightarrow> jsnum" where
  "plus_jsnum (Num x) (Num y) = Num (x + y)"
| "plus_jsnum NaN _ = NaN"
| "plus_jsnum _ NaN = NaN"
| "plus_jsnum PInf NInf = NaN"
| "plus_jsnum NInf PInf = NaN"
| "plus_jsnum PInf _ = PInf"
| "plus_jsnum _ PInf = PInf"
| "plus_jsnum NInf _ = NInf"
| "plus_jsnum _ NInf = NInf"

fun minus_jsnum :: "jsnum \<Rightarrow> jsnum \<Rightarrow> jsnum" where
  "minus_jsnum (Num x) (Num y) = Num (x - y)"
| "minus_jsnum u v = u + (- v)"

fun times_jsnum :: "jsnum \<Rightarrow> jsnum \<Rightarrow> jsnum" where
  "times_jsnum (Num x) (Num y) = Num (x * y)"
| "times_jsnum NaN _ = NaN"
| "times_jsnum _ NaN = NaN"
| "times_jsnum u v = inf_of (jsign u * jsign v)"

fun divide_jsnum :: "jsnum \<Rightarrow> jsnum \<Rightarrow> jsnum" where
  "divide_jsnum (Num x) (Num y) = (if y = 0 then inf_of (sgn x) else Num (x / y))"
| "divide_jsnum NaN _ = NaN"
| "divide_jsnum _ NaN = NaN"
| "divide_jsnum (Num x) _ = Num 0"
| "divide_jsnum u (Num y) = inf_of (jsign u * (if y < 0 then - 1 else 1))"
| "divide_jsnum _ _ = NaN"

fun inverse_jsnum :: "jsnum \<Rightarrow> jsnum" where
  "inverse_jsnum (Num x) = (if x = 0 then PInf else Num (1 / x))"
| "inverse_jsnum PInf = Num 0"
| "inverse_jsnum NInf = Num 0"
| "inverse_jsnum NaN = NaN"

fun abs_jsnum :: "jsnum \<Rightarrow> jsnum" where
  "abs_jsnum (Num x) = Num \<bar>x\<bar>"
| "abs_jsnum PInf = PInf"
| "abs_jsnum NInf = PInf"
| "abs_jsnum NaN = NaN"

fun less_jsnum :: "jsnum \<Rightarrow> jsnum \<Rightarrow> bool" where
  "less_jsnum (Num x) (Num y) = (x < y)"
| "less_jsnum NaN _ = False"
| "less_jsnum _ NaN = False"
| "less_jsnum NInf NInf = False"
| "less_jsnum NInf _ = True"
| "less_jsnum PInf _ = False"
| "less_jsnum _ PInf = True"
| "less_jsnum _ NInf = False"

definition less_eq_jsnum :: "jsnum \<Rightarrow> jsnum \<Rightarrow> bool" where
  "less_eq_jsnum u v = (u < v \<or> (u = v \<and> u \<noteq> NaN))"

instance ..

end


text \<open>The golden ratio, \<open>(1 + Math.sqrt(5)) / 2\<close>.\<close>

definition phi :: real where
  "phi = (1 + sqrt 5) / 2"

section \<open>Golden-section search\<close>

text \<open>
  One entry of \<open>history\<close> in \<open>goldenSectionSearch\<close>: the object
  \<open>{ iter, a, b, c, d, fc, fd, midpoint }\<close>.
\<close>

record gs_record =
  gs_iter :: nat
  gs_a :: jsnum
  gs_b :: jsnum
  gs_c :: jsnum
  gs_d :: jsnum
  gs_fc :: jsnum
  gs_fd :: jsnum
  gs_midpoint :: jsnum

text \<open>The loop variables \<open>a, b, c, d, fc, fd\<close> of \<open>goldenSectionSearch\<close>.\<close>

record gs_state =
  ga :: jsnum
  gb :: jsnum
  gc :: jsnum
  gd :: jsnum
  gfc :: jsnum
  gfd :: jsnum

text \<open>The returned object \<open>{ xOpt, fOpt, history }\<close>, shared by all searches.\<close>

record 'h result =
  xOpt :: jsnum
  fOpt :: jsnum
  history :: "'h list"

definition gs_init :: "(jsnum \<Rightarrow> jsnum) \<Rightarrow> jsnum \<Rightarrow> jsnum \<Rightarrow> gs_state" where
  "gs_init f a b =
     (let c = b - (b - a) / Num phi;
          d = a + (b - a) / Num phi
      in \<lparr>ga = a, gb = b, gc = c, gd = d, gfc = f c, gfd = f d\<rparr>)"

definition gs_entry :: "nat \<Rightarrow> gs_state \<Rightarrow> gs_record" where
  "gs_entry iter s =
     \<lparr>gs_iter = iter + 1, gs_a = ga s, gs_b = gb s, gs_c = gc s, gs_d = gd s,
      gs_fc = gfc s, gs_fd = gfd s, gs_midpoint = (ga s + gb s) / Num 2\<rparr>"

text \<open>The body of the loop after the tolerance test: the two branches of \<open>if (fc < fd)\<close>.\<close>

definition gs_step :: "(jsnum \<Rightarrow> jsnum) \<Rightarrow> gs_state \<Rightarrow> gs_state" where
  "gs_step f s =
     (if gfc s < gfd s then
        (let b = gd s; d = gc s; fd = gfc s; c = b - (b - ga s) / Num phi
         in \<lparr>ga = ga s, gb = b, gc = c, gd = d, gfc = f c, gfd = fd\<rparr>)
      else
        (let a = gc s; c = gd s; fc = gfd s; d = a + (gb s - a) / Num phi
         in \<lparr>ga = a, gb = gb s, gc = c, gd = d, gfc = fc, gfd = f d\<rparr>))"

text \<open>
  \<open>for (let iter = 0; iter < maxIter; iter++)\<close>: push the entry, leave on
  \<open>Math.abs(b - a) < tol\<close>, otherwise shrink the bracket.
\<close>

function gs_loop ::
  "(jsnum \<Rightarrow> jsnum) \<Rightarrow> jsnum \<Rightarrow> nat \<Rightarrow> nat \<Rightarrow> gs_state \<Rightarrow> gs_record list
     \<Rightarrow> gs_state \<times> gs_record list" where
  "gs_loop f tol maxIter iter s hist =
     (if iter < maxIter then
        (let hist' = hist @ [gs_entry iter s]
         in if \<bar>gb s - ga s\<bar> < tol then (s, hist')
            else gs_loop f tol maxIter (Suc iter) (gs_step f s) hist')
      else (s, hist))"
  by pat_completeness auto
termination
  by (relation "measure (\<lambda>(f, tol, maxIter, iter, s, hist). maxIter - iter)") auto

declare gs_loop.simps [simp del]

definition goldenSectionSearch ::
  "(jsnum \<Rightarrow> jsnum) \<Rightarrow> jsnum \<Rightarrow> jsnum \<Rightarrow> jsnum \<Rightarrow> nat \<Rightarrow> gs_record result" where
  "goldenSectionSearch f a b tol maxIter =
     (let (s, hist) = gs_loop f tol maxIter 0 (gs_init f a b) [];
          x = (ga s + gb s) / Num 2
      in \<lparr>xOpt = x, fOpt = f x, history = hist\<rparr>)"

section \<open>Fibonacci search\<close>

text \<open>
  Arrays of numbers. A read out of range gives \<open>undefined\<close>; an assignment at or
  beyond the length extends the array, leaving holes that read as \<open>undefined\<close>.
  Indices are integers, since the source subtracts from them.
\<close>

definition arr_get :: "jsnum list \<Rightarrow> int \<Rightarrow> jsnum" where
  "arr_get xs i = (if 0 \<le> i \<and> i < int (length xs) then xs ! nat i else NaN)"

definition arr_set :: "jsnum list \<Rightarrow> nat \<Rightarrow> jsnum \<Rightarrow> jsnum list" where
  "arr_set xs i v =
     (if i < length xs then xs[i := v] else xs @ replicate (i - length xs) NaN @ [v])"

text \<open>\<open>for (let i = 2; i <= n; i++) fib[i] = fib[i - 1] + fib[i - 2]\<close>\<close>

function fib_fill :: "int \<Rightarrow> nat \<Rightarrow> jsnum list \<Rightarrow> jsnum list" where
  "fib_fill n i fib =
     (if int i \<le> n
      then fib_fill n (Suc i) (arr_set fib i (arr_get fib (int i - 1) + arr_get fib (int i - 2)))
      else fib)"
  by pat_completeness auto
termination
  by (relation "measure (\<lambda>(n, i, fib). nat (n + 1 - int i))") auto

declare fib_fill.simps [simp del]

definition fib_seq :: "int \<Rightarrow> jsnum list" where
  "fib_seq n = fib_fill n 2 [Num 1, Num 1]"

text \<open>
  One entry of \<open>history\<close> in \<open>fibonacciSearch\<close>: the object
  \<open>{ iter, a, b, x1, x2, f1, f2, fib_k, midpoint }\<close>.
\<close>

record fib_record =
  fr_iter :: nat
  fr_a :: jsnum
  fr_b :: jsnum
  fr_x1 :: jsnum
  fr_x2 :: jsnum
  fr_f1 :: jsnum
  fr_f2 :: jsnum
  fr_fib_k :: jsnum
  fr_midpoint :: jsnum

text \<open>The loop variables \<open>a, b, x1, x2, f1, f2, k\<close> of \<open>fibonacciSearch\<close>.\<close>

record fib_state =
  fa :: jsnum
  fb :: jsnum
  fx1 :: jsnum
  fx2 :: jsnum
  ff1 :: jsnum
  ff2 :: jsnum
  fk :: int

definition fib_init :: "(jsnum \<Rightarrow> jsnum) \<Rightarrow> jsnum list \<Rightarrow> jsnum \<Rightarrow> jsnum \<Rightarrow> int \<Rightarrow> fib_state" where
  "fib_init f fib a b n =
     (let x1 = a + (arr_get fib (n - 2) / arr_get fib n) * (b - a);
          x2 = a + (arr_get fib (n - 1) / arr_get fib n) * (b - a)
      in \<lparr>fa = a, fb = b, fx1 = x1, fx2 = x2, ff1 = f x1, ff2 = f x2, fk = n\<rparr>)"

definition fib_entry :: "jsnum list \<Rightarrow> nat \<Rightarrow> fib_state \<Rightarrow> fib_record" where
  "fib_entry fib iter s =
     \<lparr>fr_iter = iter + 1, fr_a = fa s, fr_b = fb s, fr_x1 = fx1 s, fr_x2 = fx2 s,
      fr_f1 = ff1 s, fr_f2 = ff2 s, fr_fib_k = arr_get fib (fk s),
      fr_midpoint = (fa s + fb s) / Num 2\<rparr>"

text \<open>The two branches of \<open>if (f1 < f2)\<close>.\<close>

definition fib_step :: "(jsnum \<Rightarrow> jsnum) \<Rightarrow> jsnum list \<Rightarrow> fib_state \<Rightarrow> fib_state" where
  "fib_step f fib s =
     (if ff1 s < ff2 s then
        (let b = fx2 s; x2 = fx1 s; f2 = ff1 s; k = fk s - 1;
             x1 = fa s + (arr_get fib (k - 2) / arr_get fib k) * (b - fa s)
         in \<lparr>fa = fa s, fb = b, fx1 = x1, fx2 = x2, ff1 = f x1, ff2 = f2, fk = k\<rparr>)
      else
        (let a = fx1 s; x1 = fx2 s; f1 = ff2 s; k = fk s - 1;
             x2 = a + (arr_get fib (k - 1) / arr_get fib k) * (fb s - a)
         in \<lparr>fa = a, fb = fb s, fx1 = x1, fx2 = x2, ff1 = f1, ff2 = f x2, fk = k\<rparr>))"

text \<open>\<open>for (let iter = 0; iter < n - 1; iter++)\<close>: push the entry, then shrink.\<close>

function fib_loop ::
  "(jsnum \<Rightarrow> jsnum) \<Rightarrow> jsnum list \<Rightarrow> int \<Rightarrow> nat \<Rightarrow> fib_state \<Rightarrow> fib_record list
     \<Rightarrow> fib_state \<times> fib_record list" where
  "fib_loop f fib n iter s hist =
     (if int iter < n - 1
      then fib_loop f fib n (Suc iter) (fib_step f fib s) (hist @ [fib_entry fib iter s])
      else (s, hist))"
  by pat_completeness auto
termination
  by (relation "measure (\<lambda>(f, fib, n, iter, s, hist). nat (n - 1 - int iter))") auto

declare fib_loop.simps [simp del]

definition fibonacciSearch ::
  "(jsnum \<Rightarrow> jsnum) \<Rightarrow> jsnum \<Rightarrow> jsnum \<Rightarrow> int \<Rightarrow> fib_record result" where
  "fibonacciSearch f a b n =
     (let fib = fib_seq n;
          (s, hist) = fib_loop f fib n 0 (fib_init f fib a b n) [];
          x = (fa s + fb s) / Num 2
      in \<lparr>xOpt = x, fOpt = f x, history = hist\<rparr>)"

section \<open>Bisection on the derivative\<close>

text \<open>
  One entry of \<open>history\<close> in \<open>bisectionMethod\<close>: the object
  \<open>{ iter, a, b, c, fc, dfc, error }\<close>.
\<close>

record bis_record =
  br_iter :: nat
  br_a :: jsnum
  br_b :: jsnum
  br_c :: jsnum
  br_fc :: jsnum
  br_dfc :: jsnum
  br_error :: jsnum

definition bis_entry ::
  "(jsnum \<Rightarrow> jsnum) \<Rightarrow> (jsnum \<Rightarrow> jsnum) \<Rightarrow> nat \<Rightarrow> jsnum \<times> jsnum \<Rightarrow> bis_record" where
  "bis_entry f df iter s =
     (let a = fst s; b = snd s; c = (a + b) / Num 2
      in \<lparr>br_iter = iter + 1, br_a = a, br_b = b, br_c = c, br_fc = f c, br_dfc = df c,
          br_error = \<bar>b - a\<bar>\<rparr>)"

text \<open>\<open>if (dfc > 0) { b = c; } else { a = c; }\<close> on the bracket \<open>(a, b)\<close>.\<close>

definition bis_step :: "(jsnum \<Rightarrow> jsnum) \<Rightarrow> jsnum \<times> jsnum \<Rightarrow> jsnum \<times> jsnum" where
  "bis_step df s =
     (let a = fst s; b = snd s; c = (a + b) / Num 2
      in if Num 0 < df c then (a, c) else (c, b))"

function bis_loop ::
  "(jsnum \<Rightarrow> jsnum) \<Rightarrow> (jsnum \<Rightarrow> jsnum) \<Rightarrow> jsnum \<Rightarrow> nat \<Rightarrow> nat \<Rightarrow> jsnum \<times> jsnum
     \<Rightarrow> bis_record list \<Rightarrow> (jsnum \<times> jsnum) \<times> bis_record list" where
  "bis_loop f df tol maxIter iter s hist =
     (if iter < maxIter then
        (let hist' = hist @ [bis_entry f df iter s];
             dfc = df ((fst s + snd s) / Num 2)
         in if \<bar>dfc\<bar> < tol \<or> \<bar>snd s - fst s\<bar> < tol then (s, hist')
            else bis_loop f df tol maxIter (Suc iter) (bis_step df s) hist')
      else (s, hist))"
  by pat_completeness auto
termination
  by (relation "measure (\<lambda>(f, df, tol, maxIter, iter, s, hist). maxIter - iter)") auto

declare bis_loop.simps [simp del]

definition bisectionMethod ::
  "(jsnum \<Rightarrow> jsnum) \<Rightarrow> (jsnum \<Rightarrow> jsnum) \<Rightarrow> jsnum \<Rightarrow> jsnum \<Rightarrow> jsnum \<Rightarrow> nat
     \<Rightarrow> bis_record result" where
  "bisectionMethod f df a b tol maxIter =
     (let (s, hist) = bis_loop f df tol maxIter 0 (a, b) [];
          x = (fst s + snd s) / Num 2
      in \<lparr>xOpt = x, fOpt = f x, history = hist\<rparr>)"

section \<open>Messages shown with \<open>alert\<close>\<close>

text \<open>
  The components report through \<open>alert\<close>. A message is modelled by its kind; the
  texts (accents dropped here) are:
  \<^item> \<open>BracketOrder\<close>: "El limite izquierdo (a) debe ser menor que el derecho (b)."
  \<^item> \<open>IterationsTooFew\<close>: "El numero de iteraciones debe ser al menos 2."
  \<^item> \<open>DerivativeSign\<close>: "La derivada debe cambiar de signo en el intervalo [a,b] para
    el metodo de biseccion."
  \<^item> \<open>CustomFunctionError e\<close>: "Error en la funcion personalizada: " followed by the
    message of the error \<open>e\<close>.
  \<^item> \<open>SecondDerivativeSmall\<close>: "La segunda derivada es muy pequena. El metodo de Newton
    puede no converger."
\<close>

datatype parse_error = DisallowedChars | EngineError string

datatype alert_msg =
  BracketOrder
| IterationsTooFew
| DerivativeSign
| CustomFunctionError parse_error
| SecondDerivativeSmall

section \<open>Newton's method\<close>

text \<open>
  One entry of \<open>history\<close> in \<open>newtonMethod\<close>: the object
  \<open>{ iter, x, fx, dfx, d2fx, step }\<close>.
\<close>

record nw_record =
  nr_iter :: nat
  nr_x :: jsnum
  nr_fx :: jsnum
  nr_dfx :: jsnum
  nr_d2fx :: jsnum
  nr_step :: jsnum

definition nw_entry ::
  "(jsnum \<Rightarrow> jsnum) \<Rightarrow> (jsnum \<Rightarrow> jsnum) \<Rightarrow> (jsnum \<Rightarrow> jsnum) \<Rightarrow> nat \<Rightarrow> jsnum \<Rightarrow> nw_record" where
  "nw_entry f df d2f iter x =
     \<lparr>nr_iter = iter + 1, nr_x = x, nr_fx = f x, nr_dfx = df x, nr_d2fx = d2f x,
      nr_step = df x / d2f x\<rparr>"

text \<open>
  The loop of \<open>newtonMethod\<close>. The list of messages shown so far is passed through:
  the guard on the second derivative calls \<open>alert\<close> and leaves the loop.
\<close>

function nw_loop ::
  "(jsnum \<Rightarrow> jsnum) \<Rightarrow> (jsnum \<Rightarrow> jsnum) \<Rightarrow> (jsnum \<Rightarrow> jsnum) \<Rightarrow> jsnum \<Rightarrow> nat \<Rightarrow> nat
     \<Rightarrow> jsnum \<Rightarrow> nw_record list \<Rightarrow> alert_msg list
     \<Rightarrow> jsnum \<times> nw_record list \<times> alert_msg list" where
  "nw_loop f df d2f tol maxIter iter x hist alerts =
     (if iter < maxIter then
        (let dfx = df x; d2fx = d2f x;
             hist' = hist @ [nw_entry f df d2f iter x]
         in if \<bar>dfx\<bar> < tol then (x, hist', alerts)
            else if \<bar>d2fx\<bar> < Num (1 / 10 ^ 12)
              then (x, hist', alerts @ [SecondDerivativeSmall])
            else nw_loop f df d2f tol maxIter (Suc iter) (x - dfx / d2fx) hist' alerts)
      else (x, hist, alerts))"
  by pat_completeness auto
termination
  by (relation "measure (\<lambda>(f, df, d2f, tol, maxIter, iter, x, hist, alerts). maxIter - iter)")
    auto

declare nw_loop.simps [simp del]

definition newtonMethod ::
  "(jsnum \<Rightarrow> jsnum) \<Rightarrow> (jsnum \<Rightarrow> jsnum) \<Rightarrow> (jsnum \<Rightarrow> jsnum) \<Rightarrow> jsnum \<Rightarrow> jsnum \<Rightarrow> nat
     \<Rightarrow> alert_msg list \<Rightarrow> nw_record result \<times> alert_msg list" where
  "newtonMethod f df d2f x0 tol maxIter alerts =
     (let (x, hist, alerts') = nw_loop f df d2f tol maxIter 0 x0 [] alerts
      in (\<lparr>xOpt = x, fOpt = f x, history = hist\<rparr>, alerts'))"

section \<open>Sampling the objective for the plot\<close>







section \<open>The parser of custom formulas\<close>

text \<open>
  Strings are lists of 8-bit characters. Of the characters JavaScript counts as white
  space these are tab, line feed, vertical tab, form feed, carriage return, space and
  the no-break space.
\<close>

definition is_space :: "char \<Rightarrow> bool" where
  "is_space c = (c \<in> set [CHR 0x09, CHR 0x0A, CHR 0x0B, CHR 0x0C, CHR 0x0D, CHR 0x20, CHR 0xA0])"

definition trim :: "string \<Rightarrow> string" where
  "trim s = rev (dropWhile is_space (rev (dropWhile is_space s)))"

text \<open>
  The regular expression
  \<^verbatim>\<open>/^[x0-9+\-*/().\s,^sin|cos|tan|log|exp|sqrt|abs|pow|min|max]+$/\<close>
  is one character class, repeated at least once over the whole string: inside the
  brackets \<open>|\<close> and \<open>^\<close> (not in first place) are plain characters, and so is every
  letter of the names.
\<close>

definition allowedChars_class :: "char \<Rightarrow> bool" where
  "allowedChars_class c =
     (c = CHR ''x'' \<or> c \<in> set ''0123456789'' \<or> c \<in> set ''+-*/().'' \<or> is_space c
      \<or> c \<in> set '',^sin|cos|tan|log|exp|sqrt|abs|pow|min|max'')"

definition allowedChars_test :: "string \<Rightarrow> bool" where
  "allowedChars_test s = (s \<noteq> [] \<and> list_all allowedChars_class s)"

text \<open>
  \<open>s.replace(/pat/g, rep)\<close> for a pattern that is a fixed, non-empty text: every
  match, left to right, without rescanning the replacement.
\<close>

function replaceAll :: "string \<Rightarrow> string \<Rightarrow> string \<Rightarrow> string" where
  "replaceAll pat rep [] = []"
| "replaceAll pat rep (c # cs) =
     (if pat \<noteq> [] \<and> take (length pat) (c # cs) = pat
      then rep @ replaceAll pat rep (drop (length pat) (c # cs))
      else c # replaceAll pat rep cs)"
  by pat_completeness auto
termination
  by (relation "measure (\<lambda>(pat, rep, s). length s)") (auto simp: neq_Nil_conv)

definition processedFunc :: "string \<Rightarrow> string" where
  "processedFunc s =
     (replaceAll ''max('' ''Math.max(''
     (replaceAll ''min('' ''Math.min(''
     (replaceAll ''pow('' ''Math.pow(''
     (replaceAll ''abs('' ''Math.abs(''
     (replaceAll ''sqrt('' ''Math.sqrt(''
     (replaceAll ''exp('' ''Math.exp(''
     (replaceAll ''log('' ''Math.log(''
     (replaceAll ''tan('' ''Math.tan(''
     (replaceAll ''cos('' ''Math.cos(''
     (replaceAll ''sin('' ''Math.sin(''
     (replaceAll ''^'' ''**'' s)))))))))))"

text \<open>
  The JavaScript engine is a parameter. A callable either throws (\<open>Inl\<close>, with the
  message of the error) or returns a number; \<open>new Function('x', body)\<close> either throws
  on a body that does not parse or gives the callable.
\<close>

type_synonym jsfun = "jsnum \<Rightarrow> string + jsnum"

type_synonym engine = "string \<Rightarrow> string + jsfun"

text \<open>
  \<open>parseCustomFunction\<close>. Every error inside the \<open>try\<close> block is thrown again as
  \<open>Error("Error en la funcion: " + message)\<close>; \<open>DisallowedChars\<close> is the one with the
  message "Funcion contiene caracteres no permitidos", \<open>EngineError m\<close> one thrown by
  the engine with message \<open>m\<close>, when building the callable or when calling it at 1.
\<close>

definition parseCustomFunction :: "engine \<Rightarrow> string \<Rightarrow> parse_error + jsfun" where
  "parseCustomFunction engine funcString =
     (let s = trim funcString in
      if \<not> allowedChars_test s then Inl DisallowedChars
      else
        (case engine (''return '' @ processedFunc s) of
           Inl m \<Rightarrow> Inl (EngineError m)
         | Inr func \<Rightarrow>
             (case func (Num 1) of
                Inl m \<Rightarrow> Inl (EngineError m)
              | Inr v \<Rightarrow> Inr func)))"

section \<open>The components' \<open>run\<close> handlers\<close>

text \<open>
  The keys of \<open>FUNCTIONS\<close>; \<open>Custom\<close> is "Funcion personalizada". What a component
  keeps between two clicks is its last result and, here, the messages it has shown.
  The inputs are taken after \<open>Number(...)\<close>, iteration counts as integers; \<open>f\<close> and
  \<open>df\<close> are the memoised objective and derivative.
\<close>

datatype fn_key = Parabola | MultiModal | Rastrigin | Custom

record 'h ui =
  ui_result :: "'h result option"
  ui_alerts :: "alert_msg list"

definition alert :: "alert_msg \<Rightarrow> 'h ui \<Rightarrow> 'h ui" where
  "alert m u = u\<lparr>ui_alerts := ui_alerts u @ [m]\<rparr>"

definition setResult :: "'h result \<Rightarrow> 'h ui \<Rightarrow> 'h ui" where
  "setResult r u = u\<lparr>ui_result := Some r\<rparr>"

text \<open>The block "Validate custom function if selected", the same in every handler.\<close>

definition validateCustom :: "engine \<Rightarrow> fn_key \<Rightarrow> string \<Rightarrow> parse_error option" where
  "validateCustom engine fnKey customFunction =
     (if fnKey = Custom then
        (case parseCustomFunction engine customFunction of
           Inl e \<Rightarrow> Some e
         | Inr func \<Rightarrow> None)
      else None)"

definition run_golden ::
  "engine \<Rightarrow> fn_key \<Rightarrow> string \<Rightarrow> (jsnum \<Rightarrow> jsnum) \<Rightarrow> jsnum \<Rightarrow> jsnum \<Rightarrow> jsnum \<Rightarrow> nat
     \<Rightarrow> gs_record ui \<Rightarrow> gs_record ui" where
  "run_golden engine fnKey customFunction f na nb ntol nmax u =
     (if \<not> na < nb then alert BracketOrder u
      else
        (case validateCustom engine fnKey customFunction of
           Some e \<Rightarrow> alert (CustomFunctionError e) u
         | None \<Rightarrow> setResult (goldenSectionSearch f na nb ntol nmax) u))"

definition run_fibonacci ::
  "engine \<Rightarrow> fn_key \<Rightarrow> string \<Rightarrow> (jsnum \<Rightarrow> jsnum) \<Rightarrow> jsnum \<Rightarrow> jsnum \<Rightarrow> int
     \<Rightarrow> fib_record ui \<Rightarrow> fib_record ui" where
  "run_fibonacci engine fnKey customFunction f na nb nn u =
     (if \<not> na < nb then alert BracketOrder u
      else if nn < 2 then alert IterationsTooFew u
      else
        (case validateCustom engine fnKey customFunction of
           Some e \<Rightarrow> alert (CustomFunctionError e) u
         | None \<Rightarrow> setResult (fibonacciSearch f na nb nn) u))"

definition run_bisection ::
  "engine \<Rightarrow> fn_key \<Rightarrow> string \<Rightarrow> (jsnum \<Rightarrow> jsnum) \<Rightarrow> (jsnum \<Rightarrow> jsnum) \<Rightarrow> jsnum \<Rightarrow> jsnum
     \<Rightarrow> jsnum \<Rightarrow> nat \<Rightarrow> bis_record ui \<Rightarrow> bis_record ui" where
  "run_bisection engine fnKey customFunction f df na nb ntol nmax u =
     (if \<not> na < nb then alert BracketOrder u
      else if Num 0 < df na * df nb then alert DerivativeSign u
      else
        (case validateCustom engine fnKey customFunction of
           Some e \<Rightarrow> alert (CustomFunctionError e) u
         | None \<Rightarrow> setResult (bisectionMethod f df na nb ntol nmax) u))"

definition run_newton ::
  "engine \<Rightarrow> fn_key \<Rightarrow> string \<Rightarrow> (jsnum \<Rightarrow> jsnum) \<Rightarrow> (jsnum \<Rightarrow> jsnum) \<Rightarrow> (jsnum \<Rightarrow> jsnum)
     \<Rightarrow> jsnum \<Rightarrow> jsnum \<Rightarrow> nat \<Rightarrow> nw_record ui \<Rightarrow> nw_record ui" where
  "run_newton engine fnKey customFunction f df d2f nx0 ntol nmax u =
     (case validateCustom engine fnKey customFunction of
        Some e \<Rightarrow> alert (CustomFunctionError e) u
      | None \<Rightarrow>
          (let (res, alerts') = newtonMethod f df d2f nx0 ntol nmax (ui_alerts u)
           in u\<lparr>ui_result := Some res, ui_alerts := alerts'\<rparr>))"

section \<open>Auxiliary definitions for the proofs\<close>

text \<open>The Fibonacci numbers as the source starts them, \<open>1, 1, 2, 3, 5, ...\<close>.\<close>

fun fibo :: "nat \<Rightarrow> nat" where
  "fibo 0 = 1"
| "fibo (Suc 0) = 1"
| "fibo (Suc (Suc n)) = fibo (Suc n) + fibo n"

definition fib_table :: "nat \<Rightarrow> jsnum list" where
  "fib_table m = map (\<lambda>i. Num (real (fibo i))) [0..<m]"

text \<open>
  The three loops that can leave early have one shape: push the entry of the current
  state, leave if the test holds, otherwise take a step. \<open>loop_break\<close> is that shape,
  against which each loop is compared below.
\<close>

function loop_break ::
  "(nat \<Rightarrow> 's \<Rightarrow> 'h) \<Rightarrow> ('s \<Rightarrow> bool) \<Rightarrow> ('s \<Rightarrow> 's) \<Rightarrow> nat \<Rightarrow> nat \<Rightarrow> 's \<Rightarrow> 'h list
     \<Rightarrow> 's \<times> 'h list" where
  "loop_break entry stop step maxIter iter s hist =
     (if iter < maxIter then
        (if stop s then (s, hist @ [entry iter s])
         else loop_break entry stop step maxIter (Suc iter) (step s) (hist @ [entry iter s]))
      else (s, hist))"
  by pat_completeness auto
termination
  by (relation "measure (\<lambda>(entry, stop, step, maxIter, iter, s, hist). maxIter - iter)") auto

declare loop_break.simps [simp del]

text \<open>The states the loops go through: the start state after \<open>j\<close> steps.\<close>

definition gs_states :: "(jsnum \<Rightarrow> jsnum) \<Rightarrow> jsnum \<Rightarrow> jsnum \<Rightarrow> nat \<Rightarrow> gs_state" where
  "gs_states f a b j = (gs_step f ^^ j) (gs_init f a b)"


definition gs_stop :: "jsnum \<Rightarrow> gs_state \<Rightarrow> bool" where
  "gs_stop tol s = (\<bar>gb s - ga s\<bar> < tol)"


text \<open>
  The placement of the interior points in the current bracket, and the ordering of two
  brackets \<open>(a, b)\<close>: the second lies in the first and is not the whole of it.
\<close>

definition gs_ratio :: "gs_state \<Rightarrow> bool" where
  "gs_ratio s =
     (gc s = gb s - (gb s - ga s) / Num phi \<and> gd s = ga s + (gb s - ga s) / Num phi)"


text \<open>
  Newton's loop in the same terms: the update \<open>x = x - dfx / d2fx\<close>, and the two
  tests that leave the loop, convergence first and then the guard on the second
  derivative.
\<close>

definition nw_step :: "(jsnum \<Rightarrow> jsnum) \<Rightarrow> (jsnum \<Rightarrow> jsnum) \<Rightarrow> jsnum \<Rightarrow> jsnum" where
  "nw_step df d2f x = x - df x / d2f x"

definition nw_converged :: "(jsnum \<Rightarrow> jsnum) \<Rightarrow> jsnum \<Rightarrow> jsnum \<Rightarrow> bool" where
  "nw_converged df tol x = (\<bar>df x\<bar> < tol)"

definition nw_stalled :: "(jsnum \<Rightarrow> jsnum) \<Rightarrow> (jsnum \<Rightarrow> jsnum) \<Rightarrow> jsnum \<Rightarrow> jsnum \<Rightarrow> bool" where
  "nw_stalled df d2f tol x = (\<not> \<bar>df x\<bar> < tol \<and> \<bar>d2f x\<bar> < Num (1 / 10 ^ 12))"

definition nw_stop :: "(jsnum \<Rightarrow> jsnum) \<Rightarrow> (jsnum \<Rightarrow> jsnum) \<Rightarrow> jsnum \<Rightarrow> jsnum \<Rightarrow> bool" where
  "nw_stop df d2f tol x = (nw_converged df tol x \<or> nw_stalled df d2f tol x)"

definition nw_states :: "(jsnum \<Rightarrow> jsnum) \<Rightarrow> (jsnum \<Rightarrow> jsnum) \<Rightarrow> jsnum \<Rightarrow> nat \<Rightarrow> jsnum" where
  "nw_states df d2f x0 j = (nw_step df d2f ^^ j) x0"

definition rec_stalled :: "jsnum \<Rightarrow> nw_record \<Rightarrow> bool" where
  "rec_stalled tol r = (\<not> \<bar>nr_dfx r\<bar> < tol \<and> \<bar>nr_d2fx r\<bar> < Num (1 / 10 ^ 12))"




section \<open>The specification's wording, for comparison\<close>

text \<open>
  The specification's allow-set \<^verbatim>\<open>[x0-9+\-*/().,\s]\<close> and its list of function
  names. \<open>spec_char_ok\<close> is the most generous reading of "outside the allow-set and the
  listed function names": a character of the allow-set, or a letter of one of the names.
\<close>

definition spec_allow_set :: "char \<Rightarrow> bool" where
  "spec_allow_set c =
     (c = CHR ''x'' \<or> c \<in> set ''0123456789'' \<or> c \<in> set ''+-*/().,'' \<or> is_space c)"

definition spec_function_names :: "string list" where
  "spec_function_names =
     [''sin'', ''cos'', ''tan'', ''log'', ''exp'', ''sqrt'', ''abs'', ''pow'', ''min'', ''max'']"

definition spec_char_ok :: "char \<Rightarrow> bool" where
  "spec_char_ok c = (spec_allow_set c \<or> list_ex (\<lambda>name. c \<in> set name) spec_function_names)"

section \<open>An engine for the examples\<close>

text \<open>
  An engine that knows one body, \<open>return x**2 - 4*x + 3\<close>, with the meaning JavaScript
  gives it, and refuses every other.
\<close>

definition example_engine :: engine where
  "example_engine body =
     (if body = ''return x**2 - 4*x + 3''
      then Inr (\<lambda>x. Inr (x * x - Num 4 * x + Num 3))
      else Inl ''SyntaxError'')"

section \<open>Verified properties\<close>


subsection \<open>The golden ratio and the Fibonacci table\<close>

lemma phi_gt_1: "1 < phi"
proof -
  have "1 < sqrt 5" by (simp add: real_less_rsqrt)
  then show ?thesis by (simp add: phi_def)
qed

lemma arr_get_table: "i < m \<Longrightarrow> arr_get (fib_table m) (int i) = Num (real (fibo i))"
  by (simp add: arr_get_def fib_table_def)

lemma arr_set_table:
  "arr_set (fib_table m) m v = fib_table m @ [v]"
  by (simp add: arr_set_def fib_table_def)

lemma fib_table_Suc: "fib_table (Suc m) = fib_table m @ [Num (real (fibo m))]"
  by (simp add: fib_table_def)

lemma fib_fill_table:
  "2 \<le> i \<Longrightarrow> fib_fill n i (fib_table i) = fib_table (max i (nat (n + 1)))"
proof (induction n i "fib_table i" rule: fib_fill.induct)
  case (1 n i)
  show ?case
  proof (cases "int i \<le> n")
    case True
    from \<open>2 \<le> i\<close> obtain j where j: "i = Suc (Suc j)" by (metis Suc_le_D numeral_2_eq_2 Suc_le_mono)
    have g1: "arr_get (fib_table i) (int i - 1) = Num (real (fibo (Suc j)))"
      using arr_get_table[of "Suc j" i] j by simp
    have g2: "arr_get (fib_table i) (int i - 2) = Num (real (fibo j))"
      using arr_get_table[of "j" i] j by simp
    have fi: "fibo i = fibo (Suc j) + fibo j" using j by simp
    have step: "arr_set (fib_table i) i (arr_get (fib_table i) (int i - 1) + arr_get (fib_table i) (int i - 2))
        = fib_table (Suc i)"
      unfolding g1 g2 by (simp only: arr_set_table fib_table_Suc plus_jsnum.simps fi of_nat_add)
    have "fib_fill n i (fib_table i) = fib_fill n (Suc i) (fib_table (Suc i))"
      using True step by (subst fib_fill.simps) simp
    also have "\<dots> = fib_table (max (Suc i) (nat (n + 1)))"
      using "1.hyps"[OF True] step \<open>2 \<le> i\<close> by simp
    also have "max (Suc i) (nat (n + 1)) = max i (nat (n + 1))"
      using True by linarith
    finally show ?thesis .
  next
    case False
    then have "max i (nat (n + 1)) = i" by linarith
    with False show ?thesis by (subst fib_fill.simps) simp
  qed
qed

lemma fib_table_2: "fib_table 2 = [Num 1, Num 1]"
  by (simp add: fib_table_def numeral_2_eq_2)

lemma fib_seq_table: "fib_seq n = fib_table (max 2 (nat (n + 1)))"
  using fib_fill_table[of 2 n] by (simp add: fib_seq_def fib_table_2)

lemma fib_loop_iters:
  "map fr_iter (snd (fib_loop f fib n iter s hist)) = map fr_iter hist @ [Suc iter ..< nat n]"
proof (induction f fib n iter s hist rule: fib_loop.induct)
  case (1 f fib n iter s hist)
  show ?case
  proof (cases "int iter < n - 1")
    case True
    then have "[Suc iter ..< nat n] = Suc iter # [Suc (Suc iter) ..< nat n]"
      by (simp add: upt_conv_Cons)
    with True "1.IH" show ?thesis
      by (subst fib_loop.simps) (simp add: fib_entry_def)
  next
    case False
    then have "[Suc iter ..< nat n] = []" by simp
    with False show ?thesis by (subst fib_loop.simps) simp
  qed
qed


lemma fib_loop_length:
  "length (snd (fib_loop f fib n iter s hist)) = length hist + (nat (n - 1) - iter)"
proof -
  have "length (map fr_iter (snd (fib_loop f fib n iter s hist))) = length hist + (nat (n - 1) - iter)"
    unfolding fib_loop_iters by simp
  then show ?thesis by simp
qed

lemma jsnum_less_irrefl: "\<not> (u::jsnum) < u"
  by (cases u) simp_all

subsection \<open>Loops that can leave early\<close>

lemma loop_break_char:
  "\<exists>m. snd (loop_break entry stop step maxIter iter s hist)
          = hist @ map (\<lambda>j. entry (iter + j) ((step ^^ j) s)) [0..<m] \<and>
       (\<forall>j. Suc j < m \<longrightarrow> \<not> stop ((step ^^ j) s)) \<and>
       ((0 < m \<and> iter + m \<le> maxIter \<and> stop ((step ^^ (m - 1)) s) \<and>
           fst (loop_break entry stop step maxIter iter s hist) = (step ^^ (m - 1)) s) \<or>
        (iter + m = max iter maxIter \<and> (\<forall>j<m. \<not> stop ((step ^^ j) s)) \<and>
           fst (loop_break entry stop step maxIter iter s hist) = (step ^^ m) s))"
proof (induction entry stop step maxIter iter s hist rule: loop_break.induct)
  case (1 entry stop step maxIter iter s hist)
  let ?R = "loop_break entry stop step maxIter iter s hist"
  show ?case
  proof (cases "iter < maxIter")
    case False
    then have R: "?R = (s, hist)" by (subst loop_break.simps) simp
    have "max iter maxIter = iter" using False by simp
    then show ?thesis unfolding R by (intro exI[of _ 0]) simp
  next
    case True
    show ?thesis
    proof (cases "stop s")
      case True
      with \<open>iter < maxIter\<close> have R: "?R = (s, hist @ [entry iter s])"
        by (subst loop_break.simps) simp
      show ?thesis unfolding R using True \<open>iter < maxIter\<close>
        by (intro exI[of _ 1]) simp
    next
      case False
      let ?R' = "loop_break entry stop step maxIter (Suc iter) (step s) (hist @ [entry iter s])"
      from False \<open>iter < maxIter\<close> have R: "?R = ?R'"
        by (subst loop_break.simps) simp
      from "1.IH"[OF \<open>iter < maxIter\<close> False] obtain m where
        h: "snd ?R' = (hist @ [entry iter s]) @ map (\<lambda>j. entry (Suc iter + j) ((step ^^ j) (step s))) [0..<m]"
        and ns: "\<forall>j. Suc j < m \<longrightarrow> \<not> stop ((step ^^ j) (step s))"
        and fin: "(0 < m \<and> Suc iter + m \<le> maxIter \<and> stop ((step ^^ (m - 1)) (step s)) \<and>
           fst ?R' = (step ^^ (m - 1)) (step s)) \<or>
          (Suc iter + m = max (Suc iter) maxIter \<and> (\<forall>j<m. \<not> stop ((step ^^ j) (step s))) \<and>
           fst ?R' = (step ^^ m) (step s))"
        by blast
      have sh: "(step ^^ j) (step s) = (step ^^ Suc j) s" for j
        by (simp add: funpow_swap1)
      have h': "snd ?R = hist @ map (\<lambda>j. entry (iter + j) ((step ^^ j) s)) [0..<Suc m]"
        unfolding R h by (simp only: map_upt_Suc sh) simp
      have ns': "\<forall>j. Suc j < Suc m \<longrightarrow> \<not> stop ((step ^^ j) s)"
      proof (intro allI impI)
        fix j assume "Suc j < Suc m"
        show "\<not> stop ((step ^^ j) s)"
        proof (cases j)
          case 0 then show ?thesis using False by simp
        next
          case (Suc k)
          then have "Suc k < m" using \<open>Suc j < Suc m\<close> by simp
          with ns have "\<not> stop ((step ^^ k) (step s))" by blast
          then show ?thesis unfolding Suc sh .
        qed
      qed
      have all': "(\<forall>j<m. \<not> stop ((step ^^ j) (step s))) \<Longrightarrow> (\<forall>j<Suc m. \<not> stop ((step ^^ j) s))"
      proof (intro allI impI)
        fix j assume a: "\<forall>j<m. \<not> stop ((step ^^ j) (step s))" and "j < Suc m"
        show "\<not> stop ((step ^^ j) s)"
        proof (cases j)
          case 0 then show ?thesis using False by simp
        next
          case (Suc k)
          then have "k < m" using \<open>j < Suc m\<close> by simp
          with a have "\<not> stop ((step ^^ k) (step s))" by blast
          then show ?thesis unfolding Suc sh .
        qed
      qed
      have mx: "max (Suc iter) maxIter = max iter maxIter" using \<open>iter < maxIter\<close> by simp
      from fin have fin': "(0 < Suc m \<and> iter + Suc m \<le> maxIter \<and> stop ((step ^^ (Suc m - 1)) s) \<and>
           fst ?R = (step ^^ (Suc m - 1)) s) \<or>
          (iter + Suc m = max iter maxIter \<and> (\<forall>j<Suc m. \<not> stop ((step ^^ j) s)) \<and>
           fst ?R = (step ^^ Suc m) s)"
      proof
        assume a: "0 < m \<and> Suc iter + m \<le> maxIter \<and> stop ((step ^^ (m - 1)) (step s)) \<and>
           fst ?R' = (step ^^ (m - 1)) (step s)"
        then obtain k where k: "m = Suc k" by (cases m) auto
        from a show ?thesis unfolding R k sh by simp
      next
        assume a: "Suc iter + m = max (Suc iter) maxIter \<and> (\<forall>j<m. \<not> stop ((step ^^ j) (step s))) \<and>
           fst ?R' = (step ^^ m) (step s)"
        then have "\<forall>j<Suc m. \<not> stop ((step ^^ j) s)" using all' by blast
        with a show ?thesis unfolding R sh mx[symmetric] by simp
      qed
      show ?thesis using h' ns' fin' by blast
    qed
  qed
qed

lemma gs_loop_is_loop_break:
  "gs_loop f tol maxIter iter s hist
     = loop_break gs_entry (gs_stop tol) (gs_step f) maxIter iter s hist"
proof (induction f tol maxIter iter s hist rule: gs_loop.induct)
  case (1 f tol maxIter iter s hist)
  have c: "(\<bar>gb s - ga s\<bar> < tol) = gs_stop tol s" by (simp add: gs_stop_def)
  have L: "gs_loop f tol maxIter iter s hist =
      (if iter < maxIter then
         (if gs_stop tol s then (s, hist @ [gs_entry iter s])
          else gs_loop f tol maxIter (Suc iter) (gs_step f s) (hist @ [gs_entry iter s]))
       else (s, hist))"
    by (subst gs_loop.simps) (simp only: Let_def c)
  have IH: "gs_loop f tol maxIter (Suc iter) (gs_step f s) (hist @ [gs_entry iter s])
      = loop_break gs_entry (gs_stop tol) (gs_step f) maxIter (Suc iter) (gs_step f s)
          (hist @ [gs_entry iter s])"
    if "iter < maxIter" "\<not> gs_stop tol s"
    using "1.IH"[OF that(1) refl] that(2) by (simp add: c)
  show ?case
    by (subst L, subst loop_break.simps) (simp add: IH)
qed


subsection \<open>Golden-section search: the states\<close>

lemma num_le [simp]: "(Num x \<le> Num y) = (x \<le> y)"
  by (auto simp: less_eq_jsnum_def)

lemma phi_pos: "0 < phi"
  using phi_gt_1 by simp

lemma phi_sq: "phi * phi = phi + 1"
proof -
  have "sqrt 5 * sqrt 5 = 5" by simp
  then show ?thesis by (simp add: phi_def field_simps)
qed

lemma phi_lt_2: "phi < 2"
proof -
  have "sqrt 5 < sqrt 9" by (simp only: real_sqrt_less_iff)
  also have "sqrt 9 = 3" using real_sqrt_abs[of 3] by simp
  finally show ?thesis by (simp add: phi_def)
qed

lemma inv_phi_sum: "1 / phi + 1 / (phi * phi) = 1"
proof -
  have "1 / phi + 1 / (phi * phi) = (phi + 1) / (phi * phi)"
    using phi_pos by (simp add: field_simps)
  also have "\<dots> = 1" using phi_pos by (simp add: phi_sq)
  finally show ?thesis .
qed

lemma gs_init_ratio: "gs_ratio (gs_init f a b)"
  by (simp add: gs_ratio_def gs_init_def Let_def)

lemma gs_init_num:
  "ga (gs_init f (Num a) (Num b)) = Num a \<and> gb (gs_init f (Num a) (Num b)) = Num b"
  by (simp add: gs_init_def Let_def)

lemma gs_step_num:
  assumes "ga s = Num a" "gb s = Num b" "gs_ratio s"
  shows "\<exists>a' b'. ga (gs_step f s) = Num a' \<and> gb (gs_step f s) = Num b' \<and>
           gs_ratio (gs_step f s) \<and>
           (a < b \<longrightarrow> a \<le> a' \<and> a' < b' \<and> b' \<le> b \<and> (a < a' \<or> b' < b))"
proof -
  define r where "r = 1 / phi"
  have r: "0 < r" "r < 1" "r + r * r = 1"
    using phi_gt_1 inv_phi_sum by (simp_all add: r_def)
  have c: "gc s = Num (b - (b - a) * r)" and d: "gd s = Num (a + (b - a) * r)"
    using assms phi_pos by (simp_all add: gs_ratio_def r_def)
  have e1: "b - (b - a) * r = a + (a + (b - a) * r - a) * r"
  proof -
    have "a + (a + (b - a) * r - a) * r = a + (b - a) * (r * r)" by (simp add: algebra_simps)
    also have "r * r = 1 - r" using r(3) by simp
    finally show ?thesis by (simp add: algebra_simps)
  qed
  have e2: "a + (b - a) * r = b - (b - (b - (b - a) * r)) * r"
  proof -
    have "b - (b - (b - (b - a) * r)) * r = b - (b - a) * (r * r)" by (simp add: algebra_simps)
    also have "r * r = 1 - r" using r(3) by simp
    finally show ?thesis by (simp add: algebra_simps)
  qed
  have m: "a < b \<Longrightarrow> a < a + (b - a) * r \<and> a + (b - a) * r < b"
  proof -
    assume "a < b"
    then have "0 < (b - a) * r" "(b - a) * r < (b - a) * 1" using r by simp_all
    then show ?thesis by simp
  qed
  have m2: "a < b \<Longrightarrow> a < b - (b - a) * r \<and> b - (b - a) * r < b"
    using m by (simp add: algebra_simps)
  show ?thesis
  proof (cases "gfc s < gfd s")
    case True
    have "ga (gs_step f s) = Num a" "gb (gs_step f s) = Num (a + (b - a) * r)"
      using True assms(1) d by (simp_all add: gs_step_def Let_def)
    moreover have "gs_ratio (gs_step f s)"
      using True assms(1) c d phi_pos e1
      by (simp add: gs_step_def Let_def gs_ratio_def r_def)
    ultimately show ?thesis using m by auto
  next
    case False
    have "ga (gs_step f s) = Num (b - (b - a) * r)" "gb (gs_step f s) = Num b"
      using False assms(2) c by (simp_all add: gs_step_def Let_def)
    moreover have "gs_ratio (gs_step f s)"
      using False assms(2) c d phi_pos e2
      by (simp add: gs_step_def Let_def gs_ratio_def r_def)
    ultimately show ?thesis using m2 by auto
  qed
qed

lemma gs_states_0: "gs_states f a b 0 = gs_init f a b"
  by (simp add: gs_states_def)

lemma gs_states_Suc: "gs_states f a b (Suc j) = gs_step f (gs_states f a b j)"
  by (simp add: gs_states_def)

lemma gs_states_num:
  "\<exists>aj bj. ga (gs_states f (Num a) (Num b) j) = Num aj \<and>
           gb (gs_states f (Num a) (Num b) j) = Num bj \<and>
           gs_ratio (gs_states f (Num a) (Num b) j) \<and>
           (a < b \<longrightarrow> a \<le> aj \<and> aj < bj \<and> bj \<le> b)"
proof (induction j)
  case 0
  show ?case by (simp add: gs_states_0 gs_init_num gs_init_ratio)
next
  case (Suc j)
  then obtain aj bj where h: "ga (gs_states f (Num a) (Num b) j) = Num aj"
      "gb (gs_states f (Num a) (Num b) j) = Num bj" "gs_ratio (gs_states f (Num a) (Num b) j)"
      "a < b \<longrightarrow> a \<le> aj \<and> aj < bj \<and> bj \<le> b"
    by blast
  from gs_step_num[OF h(1,2,3), of f] obtain a' b' where
    s: "ga (gs_step f (gs_states f (Num a) (Num b) j)) = Num a'"
       "gb (gs_step f (gs_states f (Num a) (Num b) j)) = Num b'"
       "gs_ratio (gs_step f (gs_states f (Num a) (Num b) j))"
       "aj < bj \<longrightarrow> aj \<le> a' \<and> a' < b' \<and> b' \<le> bj \<and> (aj < a' \<or> b' < bj)"
    by blast
  have "a < b \<longrightarrow> a \<le> a' \<and> a' < b' \<and> b' \<le> b" using h(4) s(4) by auto
  with s(1,2,3) show ?case unfolding gs_states_Suc by blast
qed


lemma gs_states_values:
  "gfc (gs_states f a b j) = f (gc (gs_states f a b j)) \<and>
   gfd (gs_states f a b j) = f (gd (gs_states f a b j))"
proof (induction j)
  case 0
  show ?case by (simp add: gs_states_0 gs_init_def Let_def)
next
  case (Suc j)
  then show ?case unfolding gs_states_Suc by (simp add: gs_step_def Let_def)
qed

lemma gs_search_char:
  "\<exists>m. m \<le> maxIter \<and>
     history (goldenSectionSearch f a b tol maxIter)
       = map (\<lambda>j. gs_entry j (gs_states f a b j)) [0..<m] \<and>
     (\<forall>j. Suc j < m \<longrightarrow> \<not> gs_stop tol (gs_states f a b j)) \<and>
     ((0 < m \<and> gs_stop tol (gs_states f a b (m - 1)) \<and>
       xOpt (goldenSectionSearch f a b tol maxIter)
         = (ga (gs_states f a b (m - 1)) + gb (gs_states f a b (m - 1))) / Num 2) \<or>
      (m = maxIter \<and> (\<forall>j<m. \<not> gs_stop tol (gs_states f a b j)) \<and>
       xOpt (goldenSectionSearch f a b tol maxIter)
         = (ga (gs_states f a b m) + gb (gs_states f a b m)) / Num 2))"
proof -
  let ?R = "loop_break gs_entry (gs_stop tol) (gs_step f) maxIter 0 (gs_init f a b) []"
  have x: "xOpt (goldenSectionSearch f a b tol maxIter) = (ga (fst ?R) + gb (fst ?R)) / Num 2"
    and h: "history (goldenSectionSearch f a b tol maxIter) = snd ?R"
    by (simp_all add: goldenSectionSearch_def gs_loop_is_loop_break Let_def split_beta)
  from loop_break_char[of gs_entry "gs_stop tol" "gs_step f" maxIter 0 "gs_init f a b" "[]"]
  obtain m where
    m1: "snd ?R = map (\<lambda>j. gs_entry j ((gs_step f ^^ j) (gs_init f a b))) [0..<m]" and
    m2: "\<forall>j. Suc j < m \<longrightarrow> \<not> gs_stop tol ((gs_step f ^^ j) (gs_init f a b))" and
    m3: "(0 < m \<and> m \<le> maxIter \<and> gs_stop tol ((gs_step f ^^ (m - 1)) (gs_init f a b)) \<and>
           fst ?R = (gs_step f ^^ (m - 1)) (gs_init f a b)) \<or>
        (m = maxIter \<and> (\<forall>j<m. \<not> gs_stop tol ((gs_step f ^^ j) (gs_init f a b))) \<and>
           fst ?R = (gs_step f ^^ m) (gs_init f a b))"
    by auto
  from m3 have le: "m \<le> maxIter" by auto
  show ?thesis
    apply (rule exI[of _ m])
    unfolding x h gs_states_def
    using m1 m2 m3 le by auto
qed

subsection \<open>The comparison of the interior values\<close>

text \<open>
  Claim C1 (as amended). In both searches the two interior values are compared with the
  strict \<open><\<close>. When the first is smaller, the left side is kept: \<open>[a, d]\<close> in the
  golden-section search, \<open>[a, x2]\<close> in the Fibonacci search. Whenever it is not smaller,
  in particular when the two values are equal, the \<open>else\<close> branch keeps the right side,
  \<open>[c, b]\<close> and \<open>[x1, b]\<close>. The claim as written has a tie keep the left side;
  the counterexample below shows a tie that moves \<open>a\<close> and leaves \<open>b\<close>.
\<close>

theorem C1_tie_break:
  "(gfc s < gfd s \<longrightarrow> ga (gs_step f s) = ga s \<and> gb (gs_step f s) = gd s) \<and>
   (\<not> gfc s < gfd s \<longrightarrow> ga (gs_step f s) = gc s \<and> gb (gs_step f s) = gb s) \<and>
   (gfc s = gfd s \<longrightarrow> ga (gs_step f s) = gc s \<and> gb (gs_step f s) = gb s) \<and>
   (ff1 t < ff2 t \<longrightarrow> fa (fib_step f fib t) = fa t \<and> fb (fib_step f fib t) = fx2 t) \<and>
   (\<not> ff1 t < ff2 t \<longrightarrow> fa (fib_step f fib t) = fx1 t \<and> fb (fib_step f fib t) = fb t) \<and>
   (ff1 t = ff2 t \<longrightarrow> fa (fib_step f fib t) = fx1 t \<and> fb (fib_step f fib t) = fb t)"
  by (simp add: gs_step_def fib_step_def Let_def jsnum_less_irrefl)

lemma gs_init_01:
  "gs_init (\<lambda>x. Num 0) (Num 0) (Num 1) =
     \<lparr>ga = Num 0, gb = Num 1, gc = Num (1 - 1 / phi), gd = Num (1 / phi), gfc = Num 0, gfd = Num 0\<rparr>"
  using phi_gt_1 by (simp add: gs_init_def Let_def)

text \<open>
  A constant objective on \<open>[0, 1]\<close>: the two values are equal, and the step moves \<open>a\<close>
  to \<open>c\<close> and keeps \<open>b\<close>, which is not the bracket \<open>[a, d]\<close> kept when \<open>fc < fd\<close>.
\<close>

theorem C1_counterexample:
  "gfc (gs_init (\<lambda>x. Num 0) (Num 0) (Num 1)) = gfd (gs_init (\<lambda>x. Num 0) (Num 0) (Num 1)) \<and>
   ga (gs_step (\<lambda>x. Num 0) (gs_init (\<lambda>x. Num 0) (Num 0) (Num 1)))
     \<noteq> ga (gs_init (\<lambda>x. Num 0) (Num 0) (Num 1)) \<and>
   gb (gs_step (\<lambda>x. Num 0) (gs_init (\<lambda>x. Num 0) (Num 0) (Num 1)))
     \<noteq> gd (gs_init (\<lambda>x. Num 0) (Num 0) (Num 1))"
  using phi_gt_1 by (simp add: gs_init_01 gs_step_def Let_def)

theorem C1_tie_break_witness:
  "gfc (gs_init (\<lambda>x. Num 0) (Num 0) (Num 1)) = gfd (gs_init (\<lambda>x. Num 0) (Num 0) (Num 1)) \<and>
   ga (gs_step (\<lambda>x. Num 0) (gs_init (\<lambda>x. Num 0) (Num 0) (Num 1))) = Num (1 - 1 / phi) \<and>
   gb (gs_step (\<lambda>x. Num 0) (gs_init (\<lambda>x. Num 0) (Num 0) (Num 1))) = Num 1"
  using C1_tie_break[of "gs_init (\<lambda>x. Num 0) (Num 0) (Num 1)" "\<lambda>x. Num 0"]
  by (simp add: gs_init_01)

subsection \<open>Fibonacci search\<close>

text \<open>
  Claim C4. For every integer \<open>n \<ge> 2\<close> the table built by \<open>fibonacciSearch\<close> has
  \<open>n + 1\<close> entries with \<open>fib[0] = fib[1] = 1\<close> and \<open>fib[i] = fib[i-1] + fib[i-2]\<close> for
  \<open>2 \<le> i \<le> n\<close>; the loop runs \<open>n - 1\<close> times whatever the values are, and the history
  holds exactly the \<open>n - 1\<close> entries numbered \<open>1, ..., n - 1\<close>.
\<close>

theorem C4_fibonacci:
  "2 \<le> n \<Longrightarrow>
   length (fib_seq n) = nat n + 1 \<and>
   arr_get (fib_seq n) 0 = Num 1 \<and> arr_get (fib_seq n) 1 = Num 1 \<and>
   (\<forall>i. 2 \<le> i \<and> i \<le> n \<longrightarrow>
      arr_get (fib_seq n) i = arr_get (fib_seq n) (i - 1) + arr_get (fib_seq n) (i - 2)) \<and>
   length (history (fibonacciSearch f a b n)) = nat (n - 1) \<and>
   map fr_iter (history (fibonacciSearch f a b n)) = [1 ..< nat n]"
proof -
  assume n: "2 \<le> n"
  have "max 2 (nat (n + 1)) = nat n + 1" using n by linarith
  then have tab: "fib_seq n = fib_table (nat n + 1)"
    by (simp only: fib_seq_table)
  have len: "length (fib_seq n) = nat n + 1"
    by (simp add: tab fib_table_def)
  have g0: "arr_get (fib_seq n) 0 = Num 1"
    using arr_get_table[of 0 "nat n + 1"] by (simp add: tab)
  have g1: "arr_get (fib_seq n) 1 = Num 1"
    using arr_get_table[of 1 "nat n + 1"] n by (simp add: tab)
  have rec: "arr_get (fib_seq n) i = arr_get (fib_seq n) (i - 1) + arr_get (fib_seq n) (i - 2)"
    if i: "2 \<le> i" "i \<le> n" for i
  proof -
    define j where "j = nat (i - 2)"
    have j: "i = int (Suc (Suc j))" using i by (simp add: j_def)
    have a: "arr_get (fib_seq n) i = Num (real (fibo (Suc (Suc j))))"
      unfolding tab j using i j by (intro arr_get_table) linarith
    have b: "arr_get (fib_seq n) (i - 1) = Num (real (fibo (Suc j)))"
      using arr_get_table[of "Suc j" "nat n + 1"] i j by (simp add: tab)
    have c: "arr_get (fib_seq n) (i - 2) = Num (real (fibo j))"
      using arr_get_table[of "j" "nat n + 1"] i j by (simp add: tab)
    show ?thesis by (simp add: a b c)
  qed
  have iters: "map fr_iter (history (fibonacciSearch f a b n)) = [1 ..< nat n]"
    using fib_loop_iters[of f "fib_seq n" n 0 "fib_init f (fib_seq n) a b n" "[]"]
    by (simp add: fibonacciSearch_def Let_def split_beta)
  have "length (map fr_iter (history (fibonacciSearch f a b n))) = nat (n - 1)"
    unfolding iters using n by simp
  then have hl: "length (history (fibonacciSearch f a b n)) = nat (n - 1)" by simp
  show ?thesis
  proof (intro conjI allI impI)
    fix i :: int
    assume "2 \<le> i \<and> i \<le> n"
    then show "arr_get (fib_seq n) i = arr_get (fib_seq n) (i - 1) + arr_get (fib_seq n) (i - 2)"
      using rec by simp
  qed (simp_all only: len g0 g1 hl iters)
qed

theorem C4_fibonacci_witness:
  "(2::int) \<le> 20 \<and>
   arr_get (fib_seq 20) 0 = Num 1 \<and> arr_get (fib_seq 20) 1 = Num 1 \<and>
   arr_get (fib_seq 20) 20 = arr_get (fib_seq 20) 19 + arr_get (fib_seq 20) 18 \<and>
   length (history (fibonacciSearch (\<lambda>x. (x - Num 2) * (x - Num 2) + Num 1) (Num (- 2)) (Num 5) 20)) = 19"
proof -
  have n: "(2::int) \<le> 20" by simp
  note th = C4_fibonacci[OF n, of "\<lambda>x. (x - Num 2) * (x - Num 2) + Num 1" "Num (- 2)" "Num 5"]
  from th have r: "\<forall>i. 2 \<le> i \<and> i \<le> 20 \<longrightarrow>
      arr_get (fib_seq 20) i = arr_get (fib_seq 20) (i - 1) + arr_get (fib_seq 20) (i - 2)"
    by (elim conjE)
  have r20: "arr_get (fib_seq 20) 20 = arr_get (fib_seq 20) 19 + arr_get (fib_seq 20) 18"
    using r[rule_format, of 20] by simp
  from th have l: "length (history (fibonacciSearch (\<lambda>x. (x - Num 2) * (x - Num 2) + Num 1) (Num (- 2)) (Num 5) 20)) = nat (20 - 1)"
    by (elim conjE)
  from th have g0: "arr_get (fib_seq 20) 0 = Num 1" by (elim conjE)
  from th have g1: "arr_get (fib_seq 20) 1 = Num 1" by (elim conjE)
  show ?thesis using g0 g1 r20 l by simp
qed

subsection \<open>Golden-section search: the result\<close>

text \<open>
  Claim C2. Golden-section search starts from \<open>c = b - (b - a) / \<phi>\<close> and
  \<open>d = a + (b - a) / \<phi>\<close> with \<open>\<phi> = (1 + \<surd>5) / 2\<close>, and between finite bounds every
  later state has its interior points at the same places of its bracket. The recorded
  values are those of \<open>f\<close> at the interior points. A step keeps \<open>[a, d]\<close> when
  \<open>fc < fd\<close> and \<open>[c, b]\<close> otherwise, and takes the surviving interior point and its
  value over from the state before, so only one point is evaluated anew. The history is
  the entries of the first \<open>m \<le> maxIter\<close> states; the loop leaves at the first state with
  \<open>|b - a| < tol\<close>, or after \<open>maxIter\<close> iterations, and in both cases \<open>xOpt\<close> is the
  midpoint of the bracket it ends with and \<open>fOpt = f(xOpt)\<close>.
\<close>

theorem C2_golden_section:
  "ga (gs_states f a b 0) = a \<and> gb (gs_states f a b 0) = b \<and>
   gc (gs_states f a b 0) = b - (b - a) / Num phi \<and>
   gd (gs_states f a b 0) = a + (b - a) / Num phi \<and>
   phi = (1 + sqrt 5) / 2 \<and>
   (\<forall>x y j. a = Num x \<and> b = Num y \<longrightarrow> gs_ratio (gs_states f a b j)) \<and>
   (\<forall>j. gfc (gs_states f a b j) = f (gc (gs_states f a b j)) \<and>
        gfd (gs_states f a b j) = f (gd (gs_states f a b j))) \<and>
   (\<forall>j. gfc (gs_states f a b j) < gfd (gs_states f a b j) \<longrightarrow>
        ga (gs_states f a b (Suc j)) = ga (gs_states f a b j) \<and>
        gb (gs_states f a b (Suc j)) = gd (gs_states f a b j) \<and>
        gd (gs_states f a b (Suc j)) = gc (gs_states f a b j) \<and>
        gfd (gs_states f a b (Suc j)) = gfc (gs_states f a b j)) \<and>
   (\<forall>j. \<not> gfc (gs_states f a b j) < gfd (gs_states f a b j) \<longrightarrow>
        ga (gs_states f a b (Suc j)) = gc (gs_states f a b j) \<and>
        gb (gs_states f a b (Suc j)) = gb (gs_states f a b j) \<and>
        gc (gs_states f a b (Suc j)) = gd (gs_states f a b j) \<and>
        gfc (gs_states f a b (Suc j)) = gfd (gs_states f a b j)) \<and>
   (\<exists>m. m \<le> maxIter \<and>
      history (goldenSectionSearch f a b tol maxIter)
        = map (\<lambda>j. gs_entry j (gs_states f a b j)) [0..<m] \<and>
      (\<forall>j. Suc j < m \<longrightarrow> \<not> \<bar>gb (gs_states f a b j) - ga (gs_states f a b j)\<bar> < tol) \<and>
      ((0 < m \<and>
        \<bar>gb (gs_states f a b (m - 1)) - ga (gs_states f a b (m - 1))\<bar> < tol \<and>
        xOpt (goldenSectionSearch f a b tol maxIter)
          = (ga (gs_states f a b (m - 1)) + gb (gs_states f a b (m - 1))) / Num 2) \<or>
       (m = maxIter \<and>
        (\<forall>j<m. \<not> \<bar>gb (gs_states f a b j) - ga (gs_states f a b j)\<bar> < tol) \<and>
        xOpt (goldenSectionSearch f a b tol maxIter)
          = (ga (gs_states f a b m) + gb (gs_states f a b m)) / Num 2))) \<and>
   fOpt (goldenSectionSearch f a b tol maxIter) = f (xOpt (goldenSectionSearch f a b tol maxIter))"
proof (intro conjI)
  show "ga (gs_states f a b 0) = a" "gb (gs_states f a b 0) = b"
    "gc (gs_states f a b 0) = b - (b - a) / Num phi"
    "gd (gs_states f a b 0) = a + (b - a) / Num phi"
    by (simp_all add: gs_states_0 gs_init_def Let_def)
  show "phi = (1 + sqrt 5) / 2" by (rule phi_def)
  show "\<forall>x y j. a = Num x \<and> b = Num y \<longrightarrow> gs_ratio (gs_states f a b j)"
    using gs_states_num by blast
  show "\<forall>j. gfc (gs_states f a b j) = f (gc (gs_states f a b j)) \<and>
        gfd (gs_states f a b j) = f (gd (gs_states f a b j))"
    using gs_states_values by blast
  show "\<forall>j. gfc (gs_states f a b j) < gfd (gs_states f a b j) \<longrightarrow>
        ga (gs_states f a b (Suc j)) = ga (gs_states f a b j) \<and>
        gb (gs_states f a b (Suc j)) = gd (gs_states f a b j) \<and>
        gd (gs_states f a b (Suc j)) = gc (gs_states f a b j) \<and>
        gfd (gs_states f a b (Suc j)) = gfc (gs_states f a b j)"
    by (simp add: gs_states_Suc gs_step_def Let_def)
  show "\<forall>j. \<not> gfc (gs_states f a b j) < gfd (gs_states f a b j) \<longrightarrow>
        ga (gs_states f a b (Suc j)) = gc (gs_states f a b j) \<and>
        gb (gs_states f a b (Suc j)) = gb (gs_states f a b j) \<and>
        gc (gs_states f a b (Suc j)) = gd (gs_states f a b j) \<and>
        gfc (gs_states f a b (Suc j)) = gfd (gs_states f a b j)"
    by (simp add: gs_states_Suc gs_step_def Let_def)
  show "\<exists>m. m \<le> maxIter \<and>
      history (goldenSectionSearch f a b tol maxIter)
        = map (\<lambda>j. gs_entry j (gs_states f a b j)) [0..<m] \<and>
      (\<forall>j. Suc j < m \<longrightarrow> \<not> \<bar>gb (gs_states f a b j) - ga (gs_states f a b j)\<bar> < tol) \<and>
      ((0 < m \<and>
        \<bar>gb (gs_states f a b (m - 1)) - ga (gs_states f a b (m - 1))\<bar> < tol \<and>
        xOpt (goldenSectionSearch f a b tol maxIter)
          = (ga (gs_states f a b (m - 1)) + gb (gs_states f a b (m - 1))) / Num 2) \<or>
       (m = maxIter \<and>
        (\<forall>j<m. \<not> \<bar>gb (gs_states f a b j) - ga (gs_states f a b j)\<bar> < tol) \<and>
        xOpt (goldenSectionSearch f a b tol maxIter)
          = (ga (gs_states f a b m) + gb (gs_states f a b m)) / Num 2))"
    using gs_search_char[of maxIter f a b tol] unfolding gs_stop_def .
  show "fOpt (goldenSectionSearch f a b tol maxIter) = f (xOpt (goldenSectionSearch f a b tol maxIter))"
    by (simp add: goldenSectionSearch_def Let_def split_beta)
qed

theorem C2_golden_section_witness:
  "length (history (goldenSectionSearch (\<lambda>x. (x - Num 2) * (x - Num 2) + Num 1)
      (Num (- 2)) (Num 5) (Num 10) 60)) = 1 \<and>
   xOpt (goldenSectionSearch (\<lambda>x. (x - Num 2) * (x - Num 2) + Num 1)
      (Num (- 2)) (Num 5) (Num 10) 60) = Num (3 / 2) \<and>
   fOpt (goldenSectionSearch (\<lambda>x. (x - Num 2) * (x - Num 2) + Num 1)
      (Num (- 2)) (Num 5) (Num 10) 60) = Num (5 / 4)"
proof -
  let ?f = "\<lambda>x. (x - Num 2) * (x - Num 2) + Num 1"
  let ?r = "goldenSectionSearch ?f (Num (- 2)) (Num 5) (Num 10) 60"
  let ?st = "gs_states ?f (Num (- 2)) (Num 5)"
  note th = C2_golden_section[of ?f "Num (- 2)" "Num 5" 60 "Num 10"]
  from th have a0: "ga (?st 0) = Num (- 2)" by (elim conjE)
  from th have b0: "gb (?st 0) = Num 5" by (elim conjE)
  have stop0: "\<bar>gb (?st 0) - ga (?st 0)\<bar> < Num 10" by (simp add: a0 b0)
  from th have "\<exists>m. m \<le> 60 \<and> history ?r = map (\<lambda>j. gs_entry j (?st j)) [0..<m] \<and>
      (\<forall>j. Suc j < m \<longrightarrow> \<not> \<bar>gb (?st j) - ga (?st j)\<bar> < Num 10) \<and>
      ((0 < m \<and> \<bar>gb (?st (m - 1)) - ga (?st (m - 1))\<bar> < Num 10 \<and>
            xOpt ?r = (ga (?st (m - 1)) + gb (?st (m - 1))) / Num 2) \<or>
          (m = 60 \<and> (\<forall>j<m. \<not> \<bar>gb (?st j) - ga (?st j)\<bar> < Num 10) \<and>
            xOpt ?r = (ga (?st m) + gb (?st m)) / Num 2))"
    by (elim conjE)
  then obtain m where
    h: "history ?r = map (\<lambda>j. gs_entry j (?st j)) [0..<m]" and
    ns: "\<forall>j. Suc j < m \<longrightarrow> \<not> \<bar>gb (?st j) - ga (?st j)\<bar> < Num 10" and
    fin: "(0 < m \<and> \<bar>gb (?st (m - 1)) - ga (?st (m - 1))\<bar> < Num 10 \<and>
            xOpt ?r = (ga (?st (m - 1)) + gb (?st (m - 1))) / Num 2) \<or>
          (m = 60 \<and> (\<forall>j<m. \<not> \<bar>gb (?st j) - ga (?st j)\<bar> < Num 10) \<and>
            xOpt ?r = (ga (?st m) + gb (?st m)) / Num 2)"
    by blast
  from th have fo: "fOpt ?r = ?f (xOpt ?r)" by (elim conjE)
  have "\<not> Suc 0 < m" using ns stop0 by blast
  moreover have "0 < m" using fin stop0 by auto
  ultimately have m: "m = 1" by simp
  have x: "xOpt ?r = Num (3 / 2)" using fin stop0 by (auto simp: m a0 b0)
  have "length (history ?r) = 1" by (simp add: h m)
  moreover have "fOpt ?r = Num (5 / 4)" unfolding fo x by (simp add: power2_eq_square)
  ultimately show ?thesis using x by simp
qed

subsection \<open>Bisection and the nesting of brackets\<close>














subsection \<open>Bisection: the sign of the derivative at the ends\<close>

lemma jsnum_not_less_le: "u \<noteq> NaN \<Longrightarrow> v \<noteq> NaN \<Longrightarrow> \<not> u < v \<Longrightarrow> v \<le> (u::jsnum)"
  by (cases u; cases v) (auto simp: less_eq_jsnum_def)







subsection \<open>Newton's method\<close>

lemma nw_loop_unfold:
  "nw_loop f df d2f tol maxIter iter x hist alerts =
     (if iter < maxIter then
        (if nw_converged df tol x then (x, hist @ [nw_entry f df d2f iter x], alerts)
         else if nw_stalled df d2f tol x
           then (x, hist @ [nw_entry f df d2f iter x], alerts @ [SecondDerivativeSmall])
         else nw_loop f df d2f tol maxIter (Suc iter) (nw_step df d2f x)
                (hist @ [nw_entry f df d2f iter x]) alerts)
      else (x, hist, alerts))"
  by (subst nw_loop.simps) (simp add: Let_def nw_converged_def nw_stalled_def nw_step_def)

lemma nw_loop_is_loop_break:
  "(fst (nw_loop f df d2f tol maxIter iter x hist alerts),
    fst (snd (nw_loop f df d2f tol maxIter iter x hist alerts)))
     = loop_break (nw_entry f df d2f) (nw_stop df d2f tol) (nw_step df d2f) maxIter iter x hist"
proof (induction "nw_entry f df d2f" "nw_stop df d2f tol" "nw_step df d2f" maxIter iter x hist
    rule: loop_break.induct)
  case (1 maxIter iter x hist)
  show ?case
  proof (cases "iter < maxIter")
    case False
    then show ?thesis
      by (subst nw_loop_unfold, subst nw_loop_unfold, subst loop_break.simps) simp
  next
    case True
    show ?thesis
    proof (cases "nw_stop df d2f tol x")
      case True
      with \<open>iter < maxIter\<close> show ?thesis
        by (subst nw_loop_unfold, subst nw_loop_unfold, subst loop_break.simps)
          (auto simp: nw_stop_def)
    next
      case False
      then have n: "\<not> nw_converged df tol x" "\<not> nw_stalled df d2f tol x"
        by (simp_all add: nw_stop_def)
      have L: "nw_loop f df d2f tol maxIter iter x hist alerts =
          nw_loop f df d2f tol maxIter (Suc iter) (nw_step df d2f x)
            (hist @ [nw_entry f df d2f iter x]) alerts"
        using n \<open>iter < maxIter\<close> by (subst nw_loop_unfold) simp
      have R: "loop_break (nw_entry f df d2f) (nw_stop df d2f tol) (nw_step df d2f) maxIter iter x hist
         = loop_break (nw_entry f df d2f) (nw_stop df d2f tol) (nw_step df d2f) maxIter (Suc iter)
             (nw_step df d2f x) (hist @ [nw_entry f df d2f iter x])"
        using False \<open>iter < maxIter\<close> by (subst loop_break.simps) simp
      show ?thesis unfolding L R using "1.hyps"[OF \<open>iter < maxIter\<close> False] .
    qed
  qed
qed


lemma nw_loop_extends:
  "\<exists>ys. fst (snd (nw_loop f df d2f tol maxIter iter x hist alerts)) = hist @ ys"
proof -
  have "fst (snd (nw_loop f df d2f tol maxIter iter x hist alerts))
      = snd (loop_break (nw_entry f df d2f) (nw_stop df d2f tol) (nw_step df d2f) maxIter iter x hist)"
    using nw_loop_is_loop_break[of f df d2f tol maxIter iter x hist alerts]
    by (metis snd_conv)
  then show ?thesis
    using loop_break_char[of "nw_entry f df d2f" "nw_stop df d2f tol" "nw_step df d2f" maxIter iter x hist]
    by auto
qed

lemma rec_stalled_entry: "rec_stalled tol (nw_entry f df d2f i x) = nw_stalled df d2f tol x"
  by (simp add: rec_stalled_def nw_stalled_def nw_entry_def)

lemma nw_loop_alerts:
  "snd (snd (nw_loop f df d2f tol maxIter iter x hist alerts)) =
     alerts @ (if length hist < length (fst (snd (nw_loop f df d2f tol maxIter iter x hist alerts))) \<and>
                  rec_stalled tol (last (fst (snd (nw_loop f df d2f tol maxIter iter x hist alerts))))
               then [SecondDerivativeSmall] else [])"
proof (induction f df d2f tol maxIter iter x hist alerts rule: nw_loop.induct)
  case (1 f df d2f tol maxIter iter x hist alerts)
  let ?e = "nw_entry f df d2f iter x"
  show ?case
  proof (cases "iter < maxIter")
    case False
    then show ?thesis by (subst nw_loop_unfold, subst nw_loop_unfold, subst nw_loop_unfold) simp
  next
    case True
    show ?thesis
    proof (cases "nw_converged df tol x")
      case c: True
      then have "\<not> nw_stalled df d2f tol x" by (simp add: nw_stalled_def nw_converged_def)
      with c True show ?thesis
        by (subst nw_loop_unfold, subst nw_loop_unfold, subst nw_loop_unfold)
          (simp add: rec_stalled_entry)
    next
      case c: False
      show ?thesis
      proof (cases "nw_stalled df d2f tol x")
        case s: True
        with c True show ?thesis
          by (subst nw_loop_unfold, subst nw_loop_unfold, subst nw_loop_unfold)
            (simp add: rec_stalled_entry)
      next
        case s: False
        let ?N = "nw_loop f df d2f tol maxIter (Suc iter) (nw_step df d2f x) (hist @ [?e]) alerts"
        have L: "nw_loop f df d2f tol maxIter iter x hist alerts = ?N"
          using c s True by (subst nw_loop_unfold) simp
        have c': "\<not> \<bar>df x\<bar> < tol" using c by (simp add: nw_converged_def)
        have s': "\<not> \<bar>d2f x\<bar> < Num (1 / 10 ^ 12)" using c s by (simp add: nw_stalled_def nw_converged_def)
        have IH: "snd (snd ?N) = alerts @
            (if length (hist @ [?e]) < length (fst (snd ?N)) \<and> rec_stalled tol (last (fst (snd ?N)))
             then [SecondDerivativeSmall] else [])"
          using "1.IH"[OF True refl refl refl c' s'] by (simp add: nw_step_def nw_entry_def)
        from nw_loop_extends[of f df d2f tol maxIter "Suc iter" "nw_step df d2f x" "hist @ [?e]" alerts]
        obtain ys where ys: "fst (snd ?N) = (hist @ [?e]) @ ys" by blast
        show ?thesis
        proof (cases ys)
          case Nil
          then have "fst (snd ?N) = hist @ [?e]" using ys by simp
          then show ?thesis unfolding L IH using s by (simp add: rec_stalled_entry)
        next
          case (Cons y ys')
          then show ?thesis unfolding L IH ys by simp
        qed
      qed
    qed
  qed
qed

lemma nw_states_Suc: "nw_states df d2f x0 (Suc j) = nw_step df d2f (nw_states df d2f x0 j)"
  by (simp add: nw_states_def)

lemma nw_stop_iff:
  "nw_stop df d2f tol x = (\<bar>df x\<bar> < tol \<or> \<bar>d2f x\<bar> < Num (1 / 10 ^ 12))"
  by (auto simp: nw_stop_def nw_converged_def nw_stalled_def)

lemma nw_search_char:
  "\<exists>m. m \<le> maxIter \<and>
     history (fst (newtonMethod f df d2f x0 tol maxIter alerts))
       = map (\<lambda>j. nw_entry f df d2f j (nw_states df d2f x0 j)) [0..<m] \<and>
     (\<forall>j. Suc j < m \<longrightarrow> \<not> nw_stop df d2f tol (nw_states df d2f x0 j)) \<and>
     ((0 < m \<and> nw_stop df d2f tol (nw_states df d2f x0 (m - 1)) \<and>
       xOpt (fst (newtonMethod f df d2f x0 tol maxIter alerts)) = nw_states df d2f x0 (m - 1)) \<or>
      (m = maxIter \<and> (\<forall>j<m. \<not> nw_stop df d2f tol (nw_states df d2f x0 j)) \<and>
       xOpt (fst (newtonMethod f df d2f x0 tol maxIter alerts)) = nw_states df d2f x0 m))"
proof -
  let ?R = "loop_break (nw_entry f df d2f) (nw_stop df d2f tol) (nw_step df d2f) maxIter 0 x0 []"
  let ?N = "nw_loop f df d2f tol maxIter 0 x0 [] alerts"
  have e: "(fst ?N, fst (snd ?N)) = ?R" by (rule nw_loop_is_loop_break)
  have x: "xOpt (fst (newtonMethod f df d2f x0 tol maxIter alerts)) = fst ?N"
    and h0: "history (fst (newtonMethod f df d2f x0 tol maxIter alerts)) = fst (snd ?N)"
    by (simp_all add: newtonMethod_def Let_def split_beta)
  have x': "xOpt (fst (newtonMethod f df d2f x0 tol maxIter alerts)) = fst ?R"
    unfolding x using e by (metis fst_conv)
  have h: "history (fst (newtonMethod f df d2f x0 tol maxIter alerts)) = snd ?R"
    unfolding h0 using e by (metis snd_conv)
  from loop_break_char[of "nw_entry f df d2f" "nw_stop df d2f tol" "nw_step df d2f" maxIter 0 x0 "[]"]
  obtain m where
    m1: "snd ?R = map (\<lambda>j. nw_entry f df d2f j ((nw_step df d2f ^^ j) x0)) [0..<m]" and
    m2: "\<forall>j. Suc j < m \<longrightarrow> \<not> nw_stop df d2f tol ((nw_step df d2f ^^ j) x0)" and
    m3: "(0 < m \<and> m \<le> maxIter \<and> nw_stop df d2f tol ((nw_step df d2f ^^ (m - 1)) x0) \<and>
           fst ?R = (nw_step df d2f ^^ (m - 1)) x0) \<or>
        (m = maxIter \<and> (\<forall>j<m. \<not> nw_stop df d2f tol ((nw_step df d2f ^^ j) x0)) \<and>
           fst ?R = (nw_step df d2f ^^ m) x0)"
    by auto
  from m3 have le: "m \<le> maxIter" by auto
  show ?thesis
    apply (rule exI[of _ m])
    unfolding x' h nw_states_def
    using m1 m2 m3 le by auto
qed

lemma nw_stall_last:
  assumes "j < length (history (fst (newtonMethod f df d2f x0 tol maxIter alerts)))"
    and "\<bar>nr_d2fx (history (fst (newtonMethod f df d2f x0 tol maxIter alerts)) ! j)\<bar>
           < Num (1 / 10 ^ 12)"
  shows "Suc j = length (history (fst (newtonMethod f df d2f x0 tol maxIter alerts))) \<and>
         xOpt (fst (newtonMethod f df d2f x0 tol maxIter alerts))
           = nr_x (history (fst (newtonMethod f df d2f x0 tol maxIter alerts)) ! j)"
proof -
  let ?r = "fst (newtonMethod f df d2f x0 tol maxIter alerts)"
  let ?xs = "nw_states df d2f x0"
  from nw_search_char[of maxIter f df d2f x0 tol alerts] obtain m where
    h: "history ?r = map (\<lambda>j. nw_entry f df d2f j (?xs j)) [0..<m]" and
    ns: "\<forall>j. Suc j < m \<longrightarrow> \<not> nw_stop df d2f tol (?xs j)" and
    fin: "(0 < m \<and> nw_stop df d2f tol (?xs (m - 1)) \<and> xOpt ?r = ?xs (m - 1)) \<or>
          (m = maxIter \<and> (\<forall>j<m. \<not> nw_stop df d2f tol (?xs j)) \<and> xOpt ?r = ?xs m)"
    by blast
  have jm: "j < m" using assms(1) by (simp add: h)
  have rj: "history ?r ! j = nw_entry f df d2f j (?xs j)" using jm by (simp add: h)
  have st: "nw_stop df d2f tol (?xs j)"
    using assms(2) by (simp add: rj nw_entry_def nw_stop_iff)
  have "\<not> Suc j < m" using ns st by blast
  with jm have m: "m = Suc j" by simp
  from fin st jm have "xOpt ?r = ?xs (m - 1)" by blast
  then have xo: "xOpt ?r = ?xs j" by (simp add: m)
  have len: "length (history ?r) = Suc j" by (simp add: h m)
  have nx: "nr_x (history ?r ! j) = ?xs j" by (simp add: rj nw_entry_def)
  show ?thesis by (simp only: len nx xo)
qed

text \<open>
  Claim C5. Newton's method goes from \<open>x\<close> to \<open>x - f'(x) / f''(x)\<close>. It leaves the loop at
  the first \<open>x\<close> with \<open>|f'(x)| < tol\<close> or \<open>|f''(x)| < 1e-12\<close>, or after \<open>maxIter\<close>
  iterations. An entry whose second derivative is below \<open>1e-12\<close> in absolute value is
  always the last one, and \<open>xOpt\<close> is the \<open>x\<close> of that entry: the result is returned as
  usual, with the history up to there. Exactly when the loop left through that guard (the
  first derivative not below \<open>tol\<close>), one message is shown.
\<close>

theorem C5_newton:
  "(\<forall>j. nw_states df d2f x0 (Suc j)
        = nw_states df d2f x0 j - df (nw_states df d2f x0 j) / d2f (nw_states df d2f x0 j)) \<and>
   (\<exists>m. m \<le> maxIter \<and>
     history (fst (newtonMethod f df d2f x0 tol maxIter alerts))
       = map (\<lambda>j. nw_entry f df d2f j (nw_states df d2f x0 j)) [0..<m] \<and>
     (\<forall>j. Suc j < m \<longrightarrow> \<not> (\<bar>df (nw_states df d2f x0 j)\<bar> < tol \<or>
                             \<bar>d2f (nw_states df d2f x0 j)\<bar> < Num (1 / 10 ^ 12))) \<and>
     ((0 < m \<and> (\<bar>df (nw_states df d2f x0 (m - 1))\<bar> < tol \<or>
                \<bar>d2f (nw_states df d2f x0 (m - 1))\<bar> < Num (1 / 10 ^ 12)) \<and>
       xOpt (fst (newtonMethod f df d2f x0 tol maxIter alerts)) = nw_states df d2f x0 (m - 1)) \<or>
      (m = maxIter \<and>
       (\<forall>j<m. \<not> (\<bar>df (nw_states df d2f x0 j)\<bar> < tol \<or>
                  \<bar>d2f (nw_states df d2f x0 j)\<bar> < Num (1 / 10 ^ 12))) \<and>
       xOpt (fst (newtonMethod f df d2f x0 tol maxIter alerts)) = nw_states df d2f x0 m))) \<and>
   fOpt (fst (newtonMethod f df d2f x0 tol maxIter alerts))
     = f (xOpt (fst (newtonMethod f df d2f x0 tol maxIter alerts))) \<and>
   (\<forall>j. j < length (history (fst (newtonMethod f df d2f x0 tol maxIter alerts))) \<and>
        \<bar>nr_d2fx (history (fst (newtonMethod f df d2f x0 tol maxIter alerts)) ! j)\<bar>
          < Num (1 / 10 ^ 12) \<longrightarrow>
        Suc j = length (history (fst (newtonMethod f df d2f x0 tol maxIter alerts))) \<and>
        xOpt (fst (newtonMethod f df d2f x0 tol maxIter alerts))
          = nr_x (history (fst (newtonMethod f df d2f x0 tol maxIter alerts)) ! j)) \<and>
   snd (newtonMethod f df d2f x0 tol maxIter alerts)
     = alerts @
       (if history (fst (newtonMethod f df d2f x0 tol maxIter alerts)) \<noteq> [] \<and>
           rec_stalled tol (last (history (fst (newtonMethod f df d2f x0 tol maxIter alerts))))
        then [SecondDerivativeSmall] else [])"
proof (intro conjI)
  show "\<forall>j. nw_states df d2f x0 (Suc j)
        = nw_states df d2f x0 j - df (nw_states df d2f x0 j) / d2f (nw_states df d2f x0 j)"
    by (simp add: nw_states_Suc nw_step_def)
  show "\<exists>m. m \<le> maxIter \<and>
     history (fst (newtonMethod f df d2f x0 tol maxIter alerts))
       = map (\<lambda>j. nw_entry f df d2f j (nw_states df d2f x0 j)) [0..<m] \<and>
     (\<forall>j. Suc j < m \<longrightarrow> \<not> (\<bar>df (nw_states df d2f x0 j)\<bar> < tol \<or>
                             \<bar>d2f (nw_states df d2f x0 j)\<bar> < Num (1 / 10 ^ 12))) \<and>
     ((0 < m \<and> (\<bar>df (nw_states df d2f x0 (m - 1))\<bar> < tol \<or>
                \<bar>d2f (nw_states df d2f x0 (m - 1))\<bar> < Num (1 / 10 ^ 12)) \<and>
       xOpt (fst (newtonMethod f df d2f x0 tol maxIter alerts)) = nw_states df d2f x0 (m - 1)) \<or>
      (m = maxIter \<and>
       (\<forall>j<m. \<not> (\<bar>df (nw_states df d2f x0 j)\<bar> < tol \<or>
                  \<bar>d2f (nw_states df d2f x0 j)\<bar> < Num (1 / 10 ^ 12))) \<and>
       xOpt (fst (newtonMethod f df d2f x0 tol maxIter alerts)) = nw_states df d2f x0 m))"
    using nw_search_char[of maxIter f df d2f x0 tol alerts] unfolding nw_stop_iff .
  show "fOpt (fst (newtonMethod f df d2f x0 tol maxIter alerts))
     = f (xOpt (fst (newtonMethod f df d2f x0 tol maxIter alerts)))"
    by (simp add: newtonMethod_def Let_def split_beta)
  show "\<forall>j. j < length (history (fst (newtonMethod f df d2f x0 tol maxIter alerts))) \<and>
        \<bar>nr_d2fx (history (fst (newtonMethod f df d2f x0 tol maxIter alerts)) ! j)\<bar>
          < Num (1 / 10 ^ 12) \<longrightarrow>
        Suc j = length (history (fst (newtonMethod f df d2f x0 tol maxIter alerts))) \<and>
        xOpt (fst (newtonMethod f df d2f x0 tol maxIter alerts))
          = nr_x (history (fst (newtonMethod f df d2f x0 tol maxIter alerts)) ! j)"
    using nw_stall_last[of _ f df d2f x0 tol maxIter alerts] by blast
  show "snd (newtonMethod f df d2f x0 tol maxIter alerts)
     = alerts @
       (if history (fst (newtonMethod f df d2f x0 tol maxIter alerts)) \<noteq> [] \<and>
           rec_stalled tol (last (history (fst (newtonMethod f df d2f x0 tol maxIter alerts))))
        then [SecondDerivativeSmall] else [])"
    using nw_loop_alerts[of f df d2f tol maxIter 0 x0 "[]" alerts]
    by (simp add: newtonMethod_def Let_def split_beta)
qed


theorem C5_newton_witness:
  "history (fst (newtonMethod (\<lambda>x. x) (\<lambda>x. Num 1) (\<lambda>x. Num 0) (Num 0) (Num (1 / 1000000)) 100 []))
     = [\<lparr>nr_iter = 1, nr_x = Num 0, nr_fx = Num 0, nr_dfx = Num 1, nr_d2fx = Num 0,
         nr_step = PInf\<rparr>] \<and>
   xOpt (fst (newtonMethod (\<lambda>x. x) (\<lambda>x. Num 1) (\<lambda>x. Num 0) (Num 0) (Num (1 / 1000000)) 100 []))
     = Num 0 \<and>
   snd (newtonMethod (\<lambda>x. x) (\<lambda>x. Num 1) (\<lambda>x. Num 0) (Num 0) (Num (1 / 1000000)) 100 [])
     = [SecondDerivativeSmall]"
proof -
  let ?f = "\<lambda>x::jsnum. x" and ?df = "\<lambda>x::jsnum. Num 1" and ?d2f = "\<lambda>x::jsnum. Num 0"
  let ?tol = "Num (1 / 1000000)"
  let ?N = "newtonMethod ?f ?df ?d2f (Num 0) ?tol 100 []"
  let ?xs = "nw_states ?df ?d2f (Num 0)"
  note th = C5_newton[of ?df ?d2f "Num 0" 100 ?f ?tol "[]"]
  from th have "\<exists>m. m \<le> 100 \<and>
     history (fst ?N) = map (\<lambda>j. nw_entry ?f ?df ?d2f j (?xs j)) [0..<m] \<and>
     (\<forall>j. Suc j < m \<longrightarrow> \<not> (\<bar>?df (?xs j)\<bar> < ?tol \<or> \<bar>?d2f (?xs j)\<bar> < Num (1 / 10 ^ 12))) \<and>
     ((0 < m \<and> (\<bar>?df (?xs (m - 1))\<bar> < ?tol \<or> \<bar>?d2f (?xs (m - 1))\<bar> < Num (1 / 10 ^ 12)) \<and>
       xOpt (fst ?N) = ?xs (m - 1)) \<or>
      (m = 100 \<and> (\<forall>j<m. \<not> (\<bar>?df (?xs j)\<bar> < ?tol \<or> \<bar>?d2f (?xs j)\<bar> < Num (1 / 10 ^ 12))) \<and>
       xOpt (fst ?N) = ?xs m))"
    by (elim conjE)
  then obtain m where
    h: "history (fst ?N) = map (\<lambda>j. nw_entry ?f ?df ?d2f j (?xs j)) [0..<m]" and
    ns: "\<forall>j. Suc j < m \<longrightarrow> \<not> (\<bar>?df (?xs j)\<bar> < ?tol \<or> \<bar>?d2f (?xs j)\<bar> < Num (1 / 10 ^ 12))" and
    fin: "(0 < m \<and> (\<bar>?df (?xs (m - 1))\<bar> < ?tol \<or> \<bar>?d2f (?xs (m - 1))\<bar> < Num (1 / 10 ^ 12)) \<and>
       xOpt (fst ?N) = ?xs (m - 1)) \<or>
      (m = 100 \<and> (\<forall>j<m. \<not> (\<bar>?df (?xs j)\<bar> < ?tol \<or> \<bar>?d2f (?xs j)\<bar> < Num (1 / 10 ^ 12))) \<and>
       xOpt (fst ?N) = ?xs m)"
    by blast
  from th have al: "snd ?N = [] @
       (if history (fst ?N) \<noteq> [] \<and> rec_stalled ?tol (last (history (fst ?N)))
        then [SecondDerivativeSmall] else [])"
    by (elim conjE)
  have small: "\<bar>Num 0\<bar> < Num (1 / 10 ^ 12)" by simp
  have "\<not> Suc 0 < m" using ns small by blast
  moreover have "0 < m" using fin small by auto
  ultimately have m: "m = 1" by simp
  have x0: "?xs 0 = Num 0" by (simp add: nw_states_def)
  have hist: "history (fst ?N) = [\<lparr>nr_iter = 1, nr_x = Num 0, nr_fx = Num 0, nr_dfx = Num 1,
      nr_d2fx = Num 0, nr_step = PInf\<rparr>]"
    by (subst h) (simp add: m x0 nw_entry_def inf_of_def)
  have x: "xOpt (fst ?N) = Num 0" using fin by (auto simp: m x0)
  have a: "snd ?N = [SecondDerivativeSmall]"
    unfolding al hist by (simp add: rec_stalled_def)
  show ?thesis using hist x a by simp
qed

subsection \<open>Determinism\<close>



subsection \<open>Preconditions in the handlers\<close>

lemma jsnum_less_asym: "(u::jsnum) < v \<Longrightarrow> \<not> v < u"
  by (cases u; cases v) auto

lemma jsnum_le_not_less: "(v::jsnum) \<le> u \<Longrightarrow> \<not> u < v"
  by (auto simp: less_eq_jsnum_def jsnum_less_asym jsnum_less_irrefl)

text \<open>
  Claim C6. When \<open>a < b\<close> fails (in particular when \<open>a \<ge> b\<close>) each handler of a bracket
  method shows the message about the bounds; with \<open>a < b\<close>, the Fibonacci handler shows
  its message when \<open>n < 2\<close> and the bisection handler when \<open>f'(a) \<sqdot> f'(b) > 0\<close>. In each
  case the handler returns at once: the component is left as it was but for the
  message, and no result is stored.
\<close>

theorem C6_preconditions:
  "(\<not> na < nb \<longrightarrow>
      run_golden engine fnKey cf f na nb ntol nmax u1 = alert BracketOrder u1 \<and>
      run_fibonacci engine fnKey cf f na nb nn u2 = alert BracketOrder u2 \<and>
      run_bisection engine fnKey cf f df na nb ntol nmax u3 = alert BracketOrder u3) \<and>
   (nb \<le> na \<longrightarrow> \<not> na < nb) \<and>
   (na < nb \<and> nn < 2 \<longrightarrow> run_fibonacci engine fnKey cf f na nb nn u2 = alert IterationsTooFew u2) \<and>
   (na < nb \<and> Num 0 < df na * df nb \<longrightarrow>
      run_bisection engine fnKey cf f df na nb ntol nmax u3 = alert DerivativeSign u3) \<and>
   ui_result (alert m1 u1) = ui_result u1 \<and> ui_alerts (alert m1 u1) = ui_alerts u1 @ [m1] \<and>
   ui_result (alert m2 u2) = ui_result u2 \<and> ui_alerts (alert m2 u2) = ui_alerts u2 @ [m2] \<and>
   ui_result (alert m3 u3) = ui_result u3 \<and> ui_alerts (alert m3 u3) = ui_alerts u3 @ [m3]"
  by (simp add: run_golden_def run_fibonacci_def run_bisection_def alert_def jsnum_le_not_less)

theorem C6_preconditions_witness:
  "run_golden example_engine Parabola [] (\<lambda>x. (x - Num 2) * (x - Num 2) + Num 1)
       (Num 5) (Num (- 2)) (Num (1 / 1000)) 60 \<lparr>ui_result = None, ui_alerts = []\<rparr>
     = \<lparr>ui_result = None, ui_alerts = [BracketOrder]\<rparr> \<and>
   run_fibonacci example_engine Parabola [] (\<lambda>x. (x - Num 2) * (x - Num 2) + Num 1)
       (Num (- 2)) (Num 5) 1 \<lparr>ui_result = None, ui_alerts = []\<rparr>
     = \<lparr>ui_result = None, ui_alerts = [IterationsTooFew]\<rparr> \<and>
   run_bisection example_engine Parabola [] (\<lambda>x. (x - Num 2) * (x - Num 2) + Num 1)
       (\<lambda>x. Num 2 * (x - Num 2)) (Num 3) (Num 5) (Num (1 / 1000000)) 60
       \<lparr>ui_result = None, ui_alerts = []\<rparr>
     = \<lparr>ui_result = None, ui_alerts = [DerivativeSign]\<rparr>"
proof -
  note a = C6_preconditions[where na = "Num 5" and nb = "Num (- 2)" and engine = example_engine
      and fnKey = Parabola and cf = "[]" and f = "\<lambda>x. (x - Num 2) * (x - Num 2) + Num 1"
      and ntol = "Num (1 / 1000)" and nmax = 60
      and ?u1.0 = "\<lparr>ui_result = None, ui_alerts = []\<rparr>"]
  note b = C6_preconditions[where na = "Num (- 2)" and nb = "Num 5" and engine = example_engine
      and fnKey = Parabola and cf = "[]" and f = "\<lambda>x. (x - Num 2) * (x - Num 2) + Num 1"
      and nn = 1 and ?u2.0 = "\<lparr>ui_result = None, ui_alerts = []\<rparr>"]
  note c = C6_preconditions[where na = "Num 3" and nb = "Num 5" and engine = example_engine
      and fnKey = Parabola and cf = "[]" and f = "\<lambda>x. (x - Num 2) * (x - Num 2) + Num 1"
      and df = "\<lambda>x. Num 2 * (x - Num 2)" and ntol = "Num (1 / 1000000)" and nmax = 60
      and ?u3.0 = "\<lparr>ui_result = None, ui_alerts = []\<rparr>"]
  have 1: "run_golden example_engine Parabola [] (\<lambda>x. (x - Num 2) * (x - Num 2) + Num 1)
       (Num 5) (Num (- 2)) (Num (1 / 1000)) 60 \<lparr>ui_result = None, ui_alerts = []\<rparr>
     = \<lparr>ui_result = None, ui_alerts = [BracketOrder]\<rparr>"
    using a by (simp add: alert_def)
  have 2: "run_fibonacci example_engine Parabola [] (\<lambda>x. (x - Num 2) * (x - Num 2) + Num 1)
       (Num (- 2)) (Num 5) 1 \<lparr>ui_result = None, ui_alerts = []\<rparr>
     = \<lparr>ui_result = None, ui_alerts = [IterationsTooFew]\<rparr>"
    using b by (simp add: alert_def)
  have 3: "run_bisection example_engine Parabola [] (\<lambda>x. (x - Num 2) * (x - Num 2) + Num 1)
       (\<lambda>x. Num 2 * (x - Num 2)) (Num 3) (Num 5) (Num (1 / 1000000)) 60
       \<lparr>ui_result = None, ui_alerts = []\<rparr>
     = \<lparr>ui_result = None, ui_alerts = [DerivativeSign]\<rparr>"
    using c by (simp add: alert_def)
  show ?thesis using 1 2 3 by blast
qed

subsection \<open>The parser\<close>

lemma trim_example: "trim ''x^2 - 4*x + 3'' = ''x^2 - 4*x + 3''"
  by (simp add: trim_def is_space_def)

lemma test_example: "allowedChars_test ''x^2 - 4*x + 3''"
  by (simp add: allowedChars_test_def allowedChars_class_def is_space_def)

lemma processed_example: "processedFunc ''x^2 - 4*x + 3'' = ''x**2 - 4*x + 3''"
  by (simp add: processedFunc_def)

lemma trim_bad: "trim ''bad$chars'' = ''bad$chars''"
  by (simp add: trim_def is_space_def)

lemma test_bad: "\<not> allowedChars_test ''bad$chars''"
  by (simp add: allowedChars_test_def allowedChars_class_def is_space_def)

lemma class_vs_spec:
  "allowedChars_class c = (spec_char_ok c \<or> c = CHR ''^'' \<or> c = CHR ''|'')"
  by (auto simp: allowedChars_class_def spec_char_ok_def spec_allow_set_def spec_function_names_def)


lemma dropWhile_keeps: "c \<in> set xs \<Longrightarrow> \<not> P c \<Longrightarrow> c \<in> set (dropWhile P xs)"
  by (induction xs) auto

lemma trim_keeps: "c \<in> set s \<Longrightarrow> \<not> is_space c \<Longrightarrow> c \<in> set (trim s)"
  by (simp add: trim_def dropWhile_keeps)

lemma outside_class_rejected:
  assumes "c \<in> set s" "\<not> allowedChars_class c"
  shows "\<not> allowedChars_test (trim s)"
proof -
  have "\<not> is_space c" using assms(2) by (auto simp: allowedChars_class_def)
  then have "c \<in> set (trim s)" using assms(1) by (rule trim_keeps[rotated])
  then show ?thesis using assms(2) by (auto simp: allowedChars_test_def list_all_iff)
qed

lemma parse_accepted:
  "allowedChars_test (trim s) \<Longrightarrow>
   parseCustomFunction engine s =
     (case engine (''return '' @ processedFunc (trim s)) of
        Inl m \<Rightarrow> Inl (EngineError m)
      | Inr func \<Rightarrow> (case func (Num 1) of Inl m \<Rightarrow> Inl (EngineError m) | Inr v \<Rightarrow> Inr func))"
  by (simp add: parseCustomFunction_def Let_def)

text \<open>
  Claim C7 (as amended). The parser refuses, with the error about characters, every
  formula that is empty once trimmed or has a character outside the single character
  class of the regular expression; that class is the allow-set of the specification
  together with the letters of the function names and the two characters \<open>^\<close> and
  \<open>|\<close>. So \<open>bad$chars\<close> is refused. An accepted formula is rewritten and handed to the
  engine as \<open>return ...\<close>; a throw of the engine, when it builds the callable or when the
  callable is called at 1, is an error too, otherwise the callable is returned. For
  \<open>x^2 - 4*x + 3\<close> the body is \<open>return x**2 - 4*x + 3\<close>. A handler that finds the custom
  formula in error shows the message and stores no result. The claim as written refuses
  whatever is outside the allow-set and the names: the counterexample below has its own
  example, which contains \<open>^\<close>, accepted.
\<close>

theorem C7_parser:
  "(\<not> allowedChars_test (trim s) \<longrightarrow> parseCustomFunction engine s = Inl DisallowedChars) \<and>
   (list_ex (\<lambda>c. \<not> allowedChars_class c) s \<longrightarrow> parseCustomFunction engine s = Inl DisallowedChars) \<and>
   (\<forall>c. allowedChars_class c = (spec_char_ok c \<or> c = CHR ''^'' \<or> c = CHR ''|'')) \<and>
   parseCustomFunction engine ''bad$chars'' = Inl DisallowedChars \<and>
   (allowedChars_test (trim s) \<longrightarrow>
      parseCustomFunction engine s =
        (case engine (''return '' @ processedFunc (trim s)) of
           Inl m \<Rightarrow> Inl (EngineError m)
         | Inr func \<Rightarrow>
             (case func (Num 1) of Inl m \<Rightarrow> Inl (EngineError m) | Inr v \<Rightarrow> Inr func))) \<and>
   (allowedChars_test (trim s) \<and> engine (''return '' @ processedFunc (trim s)) = Inr func \<and>
      func (Num 1) = Inl m \<longrightarrow> parseCustomFunction engine s = Inl (EngineError m)) \<and>
   (engine ''return x**2 - 4*x + 3'' = Inr g \<and> g (Num 1) = Inr v \<longrightarrow>
      parseCustomFunction engine ''x^2 - 4*x + 3'' = Inr g) \<and>
   (parseCustomFunction engine cf = Inl e \<longrightarrow>
      validateCustom engine Custom cf = Some e \<and>
      (na < nb \<longrightarrow> run_golden engine Custom cf f na nb ntol nmax u1
                     = alert (CustomFunctionError e) u1) \<and>
      (na < nb \<and> \<not> nn < 2 \<longrightarrow> run_fibonacci engine Custom cf f na nb nn u2
                     = alert (CustomFunctionError e) u2) \<and>
      (na < nb \<and> \<not> Num 0 < df na * df nb \<longrightarrow>
         run_bisection engine Custom cf f df na nb ntol nmax u3
           = alert (CustomFunctionError e) u3) \<and>
      run_newton engine Custom cf f df d2f nx0 ntol nmax u4 = alert (CustomFunctionError e) u4)"
proof (intro conjI)
  show "\<not> allowedChars_test (trim s) \<longrightarrow> parseCustomFunction engine s = Inl DisallowedChars"
    by (simp add: parseCustomFunction_def Let_def)
  show "list_ex (\<lambda>c. \<not> allowedChars_class c) s \<longrightarrow> parseCustomFunction engine s = Inl DisallowedChars"
    using outside_class_rejected[of _ s]
    by (auto simp: list_ex_iff parseCustomFunction_def Let_def)
  show "\<forall>c. allowedChars_class c = (spec_char_ok c \<or> c = CHR ''^'' \<or> c = CHR ''|'')"
    using class_vs_spec by blast
  show "parseCustomFunction engine ''bad$chars'' = Inl DisallowedChars"
    by (simp add: parseCustomFunction_def Let_def trim_bad test_bad)
  show "allowedChars_test (trim s) \<longrightarrow>
      parseCustomFunction engine s =
        (case engine (''return '' @ processedFunc (trim s)) of
           Inl m \<Rightarrow> Inl (EngineError m)
         | Inr func \<Rightarrow>
             (case func (Num 1) of Inl m \<Rightarrow> Inl (EngineError m) | Inr v \<Rightarrow> Inr func))"
    using parse_accepted by blast
  show "allowedChars_test (trim s) \<and> engine (''return '' @ processedFunc (trim s)) = Inr func \<and>
      func (Num 1) = Inl m \<longrightarrow> parseCustomFunction engine s = Inl (EngineError m)"
    by (simp add: parse_accepted)
  show "engine ''return x**2 - 4*x + 3'' = Inr g \<and> g (Num 1) = Inr v \<longrightarrow>
      parseCustomFunction engine ''x^2 - 4*x + 3'' = Inr g"
    using parse_accepted[of "''x^2 - 4*x + 3''" engine]
    by (simp add: trim_example test_example processed_example)
  show "parseCustomFunction engine cf = Inl e \<longrightarrow>
      validateCustom engine Custom cf = Some e \<and>
      (na < nb \<longrightarrow> run_golden engine Custom cf f na nb ntol nmax u1
                     = alert (CustomFunctionError e) u1) \<and>
      (na < nb \<and> \<not> nn < 2 \<longrightarrow> run_fibonacci engine Custom cf f na nb nn u2
                     = alert (CustomFunctionError e) u2) \<and>
      (na < nb \<and> \<not> Num 0 < df na * df nb \<longrightarrow>
         run_bisection engine Custom cf f df na nb ntol nmax u3
           = alert (CustomFunctionError e) u3) \<and>
      run_newton engine Custom cf f df d2f nx0 ntol nmax u4 = alert (CustomFunctionError e) u4"
    by (simp add: validateCustom_def run_golden_def run_fibonacci_def run_bisection_def
        run_newton_def)
qed

theorem C7_parser_witness:
  "(case parseCustomFunction example_engine ''x^2 - 4*x + 3'' of
      Inl e \<Rightarrow> False
    | Inr g \<Rightarrow> g (Num 1) = Inr (Num 0)) \<and>
   parseCustomFunction example_engine ''bad$chars'' = Inl DisallowedChars \<and>
   parseCustomFunction example_engine ''x + y'' = Inl DisallowedChars"
proof -
  let ?g = "\<lambda>x. Inr (x * x - Num 4 * x + Num 3) :: string + jsnum"
  note th = C7_parser[where engine = example_engine and g = ?g and v = "Num 0"
      and s = "''x + y''"]
  have e: "example_engine ''return x**2 - 4*x + 3'' = Inr ?g" by (simp add: example_engine_def)
  have g1: "?g (Num 1) = Inr (Num 0)" by simp
  from th e g1 have 1: "parseCustomFunction example_engine ''x^2 - 4*x + 3'' = Inr ?g"
    by blast
  from th have 2: "parseCustomFunction example_engine ''bad$chars'' = Inl DisallowedChars"
    by blast
  have "list_ex (\<lambda>c. \<not> allowedChars_class c) ''x + y''"
    by (simp add: allowedChars_class_def is_space_def)
  with th have 3: "parseCustomFunction example_engine ''x + y'' = Inl DisallowedChars"
    by blast
  show ?thesis using 2 3 by (simp add: 1)
qed

text \<open>
  \<open>x^2 - 4*x + 3\<close> has a character that is neither in the allow-set nor a letter of a
  function name, and is accepted; so does \<open>1|2\<close>, which passes the filter.
\<close>

theorem C7_counterexample:
  "\<not> list_all spec_char_ok ''x^2 - 4*x + 3'' \<and>
   \<not> isl (parseCustomFunction example_engine ''x^2 - 4*x + 3'') \<and>
   \<not> list_all spec_char_ok ''1|2'' \<and> allowedChars_test (trim ''1|2'')"
proof -
  have "parseCustomFunction example_engine ''x^2 - 4*x + 3''
      = Inr (\<lambda>x. Inr (x * x - Num 4 * x + Num 3))"
    using parse_accepted[of "''x^2 - 4*x + 3''" example_engine]
    by (simp add: trim_example test_example processed_example example_engine_def)
  then show ?thesis
    by (simp add: spec_char_ok_def spec_allow_set_def spec_function_names_def is_space_def
        allowedChars_test_def allowedChars_class_def trim_def)
qed

subsection \<open>The sampler\<close>























end
